theory Spec2Isabelle
  imports Complex_Main
begin

section \<open>Errors\<close>

text \<open>
  The exceptions the notebook's functions can end in.  \<open>RuntimeError\<close> is what the tensor
  library raises for an index out of range in \<open>gather\<close> and for shapes that do not
  broadcast; \<open>StopIteration\<close> is what \<open>next\<close> raises on an iterator that is exhausted;
  \<open>NotImplementedError\<close> is the one exception the notebook raises itself.
\<close>

datatype error =
  RuntimeError | IndexError | ZeroDivisionError | StopIteration | NotImplementedError

definition bind_r :: "error + 'a \<Rightarrow> ('a \<Rightarrow> error + 'b) \<Rightarrow> error + 'b" where
  "bind_r m f = (case m of Inl e \<Rightarrow> Inl e | Inr v \<Rightarrow> f v)"

section \<open>The diffusion schedule\<close>

text \<open>
  Tensor entries are modelled as real numbers; the rounding of the notebook's 32-bit
  floating point is modelled for the schedule, in a section of its own below.  A
  one-dimensional tensor is a list.

  \<open>torch.linspace(start, end, steps)\<close>: \<open>steps\<close> values, the \<open>i\<close>-th being
  \<open>start + i * (end - start) / (steps - 1)\<close>; a single step gives \<open>start\<close> alone.
\<close>

definition linspace :: "real \<Rightarrow> real \<Rightarrow> nat \<Rightarrow> real list" where
  "linspace start stop steps =
     (if steps = 1 then [start]
      else map (\<lambda>i. start + real i * ((stop - start) / real (steps - 1))) [0..<steps])"

definition beta_start :: real where
  "beta_start = 1 / 10000"

definition beta_end :: real where
  "beta_end = 2 / 100"

definition linear_beta_schedule :: "nat \<Rightarrow> real list" where
  "linear_beta_schedule timesteps = linspace beta_start beta_end timesteps"

text \<open>\<open>torch.cumprod(xs, dim=0)\<close>: the running product, carried in an accumulator.\<close>

fun cumprod_from :: "real \<Rightarrow> real list \<Rightarrow> real list" where
  "cumprod_from acc [] = []"
| "cumprod_from acc (x # xs) = (acc * x) # cumprod_from (acc * x) xs"

definition cumprod :: "real list \<Rightarrow> real list" where
  "cumprod xs = cumprod_from 1 xs"

text \<open>\<open>F.pad(xs, (1, 0), value=v)\<close>: one entry \<open>v\<close> in front, none behind.\<close>

definition pad_left :: "real list \<Rightarrow> real \<Rightarrow> real list" where
  "pad_left xs v = v # xs"

text \<open>
  The schedule vectors are globals of the notebook, computed once from the global
  \<open>timesteps\<close>; here each is a function of \<open>timesteps\<close>.
\<close>

definition betas :: "nat \<Rightarrow> real list" where
  "betas timesteps = linear_beta_schedule timesteps"

definition alphas :: "nat \<Rightarrow> real list" where
  "alphas timesteps = map (\<lambda>b. 1 - b) (betas timesteps)"

definition alphas_cumprod :: "nat \<Rightarrow> real list" where
  "alphas_cumprod timesteps = cumprod (alphas timesteps)"

definition alphas_cumprod_prev :: "nat \<Rightarrow> real list" where
  "alphas_cumprod_prev timesteps = pad_left (butlast (alphas_cumprod timesteps)) 1"

definition sqrt_recip_alphas :: "nat \<Rightarrow> real list" where
  "sqrt_recip_alphas timesteps = map (\<lambda>a. sqrt (1 / a)) (alphas timesteps)"

definition sqrt_alphas_cumprod :: "nat \<Rightarrow> real list" where
  "sqrt_alphas_cumprod timesteps = map sqrt (alphas_cumprod timesteps)"

definition sqrt_one_minus_alphas_cumprod :: "nat \<Rightarrow> real list" where
  "sqrt_one_minus_alphas_cumprod timesteps =
     map (\<lambda>a. sqrt (1 - a)) (alphas_cumprod timesteps)"

text \<open>
  \<open>betas * (1. - alphas_cumprod_prev) / (1. - alphas_cumprod)\<close>, entry by entry.  The three
  vectors have the same length when \<open>timesteps \<ge> 1\<close>; for \<open>timesteps = 0\<close> the padded
  vector has one entry, the others none, and broadcasting gives the empty vector, as
  \<open>zip\<close> does.  This is the vector over the reals, as the formula of the reverse step
  refers to it; its float32 values and their divisors are \<open>posterior_variance32\<close> below.
\<close>

definition posterior_variance :: "nat \<Rightarrow> real list" where
  "posterior_variance timesteps =
     map (\<lambda>(b, p, c). b * (1 - p) / (1 - c))
       (zip (betas timesteps)
          (zip (alphas_cumprod_prev timesteps) (alphas_cumprod timesteps)))"

section \<open>The schedule in 32-bit floating point\<close>

text \<open>
  The notebook computes the schedule in 32-bit floating point, the default type of the
  tensor library.  A finite float32 value is modelled as the real number it denotes, and
  an arithmetic operation as the exact operation followed by rounding to the nearest
  float32 value, ties to even.  \<open>round_he\<close> rounds a real number to the nearest integer,
  ties to even.  \<open>fl32\<close> rounds to 24 significant bits; the exponent is bounded below by
  \<open>-126\<close>, where the subnormal numbers begin.  Overflow to infinity is not modelled.
\<close>

definition round_he :: "real \<Rightarrow> int" where
  "round_he x =
     (let f = \<lfloor>x\<rfloor>; d = x - of_int f in
      if d < 1 / 2 then f
      else if 1 / 2 < d then f + 1
      else if even f then f else f + 1)"

definition fl32 :: "real \<Rightarrow> real" where
  "fl32 x =
     (if x = 0 then 0
      else let e = max \<lfloor>log 2 \<bar>x\<bar>\<rfloor> (- 126) in
           of_int (round_he (x / 2 powr (of_int e - 23))) * 2 powr (of_int e - 23))"

text \<open>
  \<open>torch.linspace\<close> in float32: the values \<open>start + i * (end - start) / (steps - 1)\<close>, each
  rounded.  The first is the rounded \<open>start\<close>; of the others, which the library may
  compute with further roundings, only the bounds 0 and 1 are used below.
\<close>

definition linspace32 :: "real \<Rightarrow> real \<Rightarrow> nat \<Rightarrow> real list" where
  "linspace32 start stop steps = map fl32 (linspace start stop steps)"

text \<open>The schedule vectors as the notebook computes them, each operation rounded.\<close>

definition betas32 :: "nat \<Rightarrow> real list" where
  "betas32 timesteps = linspace32 beta_start beta_end timesteps"

definition alphas32 :: "nat \<Rightarrow> real list" where
  "alphas32 timesteps = map (\<lambda>b. fl32 (1 - b)) (betas32 timesteps)"

text \<open>
  \<open>torch.cumprod\<close> in float32: the accumulator is rounded after each product.  The first
  entry is the first factor.
\<close>

fun cumprod32_from :: "real \<Rightarrow> real list \<Rightarrow> real list" where
  "cumprod32_from acc [] = []"
| "cumprod32_from acc (x # xs) = fl32 (acc * x) # cumprod32_from (fl32 (acc * x)) xs"

definition alphas_cumprod32 :: "nat \<Rightarrow> real list" where
  "alphas_cumprod32 timesteps = cumprod32_from 1 (alphas32 timesteps)"

definition alphas_cumprod_prev32 :: "nat \<Rightarrow> real list" where
  "alphas_cumprod_prev32 timesteps = pad_left (butlast (alphas_cumprod32 timesteps)) 1"

text \<open>
  Division in float32.  A zero divisor raises nothing in the tensor library, the quotient
  is \<open>inf\<close> or \<open>nan\<close>; here it is \<open>None\<close>.
\<close>

definition div32 :: "real \<Rightarrow> real \<Rightarrow> real option" where
  "div32 a b = (if b = 0 then None else Some (fl32 (a / b)))"

text \<open>
  \<open>betas * (1. - alphas_cumprod_prev) / (1. - alphas_cumprod)\<close>: the subtraction, the product,
  the second subtraction and the division, in this order, each rounded.
\<close>

definition posterior_variance32 :: "nat \<Rightarrow> real option list" where
  "posterior_variance32 timesteps =
     map (\<lambda>(b, p, c). div32 (fl32 (b * fl32 (1 - p))) (fl32 (1 - c)))
       (zip (betas32 timesteps)
          (zip (alphas_cumprod_prev32 timesteps) (alphas_cumprod32 timesteps)))"

section \<open>Splitting a count into batches\<close>

text \<open>
  Python's \<open>//\<close> and \<open>%\<close> round towards minus infinity, as \<open>div\<close> and \<open>mod\<close> on \<open>int\<close>
  do, and raise on a zero divisor; \<open>[divisor] * groups\<close> is empty for \<open>groups \<le> 0\<close>.
\<close>

definition num_to_groups :: "int \<Rightarrow> int \<Rightarrow> error + int list" where
  "num_to_groups num divisor =
     (if divisor = 0 then Inl ZeroDivisionError
      else
        let groups = num div divisor;
            remainder = num mod divisor;
            arr = replicate (nat groups) divisor
        in Inr (if remainder > 0 then arr @ [remainder] else arr))"

section \<open>Tensors\<close>

text \<open>
  A tensor with a batch axis is the list of its samples, each sample the list of its
  entries in row-major order: the shape \<open>(b, c, h, w)\<close> of an image batch is kept as
  \<open>b\<close> rows of \<open>c * h * w\<close> entries.  Every operation of the forward and reverse process
  works entry by entry with one coefficient per sample, so the order of the entries in a
  sample does not matter to it.  Moving a tensor between devices and converting it to a
  numpy array leave its values as they are and are not modelled.
\<close>

type_synonym tensor = "real list list"

definition shape_of :: "tensor \<Rightarrow> nat list" where
  "shape_of x = map length x"

text \<open>
  Broadcasting along one axis: equal sizes pair up, a size of one is repeated, anything
  else is the library's \<open>RuntimeError\<close>.
\<close>

definition broadcast_lists :: "'a list \<Rightarrow> 'b list \<Rightarrow> error + ('a \<times> 'b) list" where
  "broadcast_lists xs ys =
     (if length xs = length ys then Inr (zip xs ys)
      else if length xs = 1 then Inr (map (\<lambda>y. (hd xs, y)) ys)
      else if length ys = 1 then Inr (map (\<lambda>x. (x, hd ys)) xs)
      else Inl RuntimeError)"

fun sequence_r :: "(error + 'a) list \<Rightarrow> error + 'a list" where
  "sequence_r [] = Inr []"
| "sequence_r (m # ms) = bind_r m (\<lambda>v. bind_r (sequence_r ms) (\<lambda>vs. Inr (v # vs)))"

definition row_op :: "(real \<Rightarrow> real \<Rightarrow> real) \<Rightarrow> real list \<Rightarrow> real list \<Rightarrow> error + real list" where
  "row_op f xs ys = bind_r (broadcast_lists xs ys) (\<lambda>ps. Inr (map (\<lambda>(u, v). f u v) ps))"

text \<open>An entrywise binary operator (\<open>*\<close>, \<open>/\<close>, \<open>+\<close>, \<open>-\<close>) on two tensors.\<close>

definition tensor_op :: "(real \<Rightarrow> real \<Rightarrow> real) \<Rightarrow> tensor \<Rightarrow> tensor \<Rightarrow> error + tensor" where
  "tensor_op f a b =
     bind_r (broadcast_lists a b) (\<lambda>ps. sequence_r (map (\<lambda>(r, s). row_op f r s) ps))"

text \<open>
  \<open>a.gather(-1, t)\<close> reads \<open>a\<close> at every index of \<open>t\<close> and raises when one is outside
  \<open>[0, len(a))\<close>.
\<close>

definition gather :: "real list \<Rightarrow> int list \<Rightarrow> error + real list" where
  "gather a idx =
     (if list_all (\<lambda>i. 0 \<le> i \<and> i < int (length a)) idx
      then Inr (map (\<lambda>i. a ! nat i) idx)
      else Inl RuntimeError)"

text \<open>
  \<open>extract(a, t, x_shape)\<close>: the entries of \<open>a\<close> at the timesteps \<open>t\<close>, reshaped to
  \<open>(batch_size, 1, ..., 1)\<close> with \<open>batch_size = t.shape[0]\<close>: one row of one
  coefficient per entry of \<open>t\<close>.  The number of trailing ones is the rank of \<open>x_shape\<close>
  less one, which the row representation fixes.  (\<open>extract\<close> is a keyword of the
  theory language, hence the suffix.)
\<close>

definition extract_t :: "real list \<Rightarrow> int list \<Rightarrow> error + tensor" where
  "extract_t a t = bind_r (gather a t) (\<lambda>out. Inr (map (\<lambda>v. [v]) out))"

section \<open>The random source\<close>

text \<open>
  The generator's state is the sequence of standard normal draws still to come;
  \<open>torch.randn_like(x)\<close> takes as many as \<open>x\<close> has entries and leaves the rest.
\<close>

type_synonym rng = "nat \<Rightarrow> real"

definition const_rng :: "real \<Rightarrow> rng" where
  "const_rng c = (\<lambda>k. c)"

definition count_rng :: rng where
  "count_rng = (\<lambda>k. real k)"

definition draw :: "nat \<Rightarrow> rng \<Rightarrow> real list \<times> rng" where
  "draw n g = (map g [0..<n], (\<lambda>k. g (k + n)))"

fun randn_like :: "tensor \<Rightarrow> rng \<Rightarrow> tensor \<times> rng" where
  "randn_like [] g = ([], g)"
| "randn_like (r # rs) g =
     (let (row, g') = draw (length r) g;
          (rows, g'') = randn_like rs g'
      in (row # rows, g''))"

text \<open>\<open>torch.randn((b, ...))\<close> for \<open>b\<close> samples of \<open>n\<close> entries each.\<close>

definition randn :: "nat \<Rightarrow> nat \<Rightarrow> rng \<Rightarrow> tensor \<times> rng" where
  "randn b n g = randn_like (replicate b (replicate n 0)) g"

section \<open>The forward process and the loss\<close>

text \<open>
  \<open>if noise is None: noise = torch.randn_like(x_start)\<close>: noise that is not given is drawn,
  which advances the generator.
\<close>

definition default_noise :: "tensor option \<Rightarrow> tensor \<Rightarrow> rng \<Rightarrow> tensor \<times> rng" where
  "default_noise noise x_start g =
     (case noise of None \<Rightarrow> randn_like x_start g | Some n \<Rightarrow> (n, g))"

definition q_sample ::
  "nat \<Rightarrow> tensor \<Rightarrow> int list \<Rightarrow> tensor option \<Rightarrow> rng \<Rightarrow> error + (tensor \<times> rng)" where
  "q_sample timesteps x_start t noise g =
     (let (noise', g') = default_noise noise x_start g in
      bind_r (extract_t (sqrt_alphas_cumprod timesteps) t) (\<lambda>sqrt_alphas_cumprod_t.
      bind_r (extract_t (sqrt_one_minus_alphas_cumprod timesteps) t)
        (\<lambda>sqrt_one_minus_alphas_cumprod_t.
      bind_r (tensor_op (*) sqrt_alphas_cumprod_t x_start) (\<lambda>lhs.
      bind_r (tensor_op (*) sqrt_one_minus_alphas_cumprod_t noise') (\<lambda>rhs.
      bind_r (tensor_op (+) lhs rhs) (\<lambda>r. Inr (r, g')))))))"

text \<open>
  The network is a parameter: a module with its list of parameter tensors and its
  \<open>forward\<close>, the function from the noisy batch and the timesteps to the predicted noise.
  A plain callable, which has no \<open>parameters\<close> at all, is not a value of this type.
\<close>

record network =
  parameters :: "tensor list"
  forward :: "tensor \<Rightarrow> int list \<Rightarrow> tensor"







section \<open>The reverse process\<close>

text \<open>
  One reverse step.  The noise is drawn only when \<open>t_index\<close> is not 0.
\<close>

definition p_sample ::
  "nat \<Rightarrow> network \<Rightarrow> tensor \<Rightarrow> int list \<Rightarrow> int \<Rightarrow> rng \<Rightarrow> error + (tensor \<times> rng)" where
  "p_sample timesteps model x t t_index g =
     bind_r (extract_t (betas timesteps) t) (\<lambda>betas_t.
     bind_r (extract_t (sqrt_one_minus_alphas_cumprod timesteps) t)
       (\<lambda>sqrt_one_minus_alphas_cumprod_t.
     bind_r (extract_t (sqrt_recip_alphas timesteps) t) (\<lambda>sqrt_recip_alphas_t.
     bind_r (tensor_op (*) betas_t (forward model x t)) (\<lambda>scaled.
     bind_r (tensor_op (/) scaled sqrt_one_minus_alphas_cumprod_t) (\<lambda>quot.
     bind_r (tensor_op (-) x quot) (\<lambda>diff.
     bind_r (tensor_op (*) sqrt_recip_alphas_t diff) (\<lambda>model_mean.
       if t_index = 0 then Inr (model_mean, g)
       else
         bind_r (extract_t (posterior_variance timesteps) t) (\<lambda>posterior_variance_t.
           let (noise, g') = randn_like x g in
           bind_r (tensor_op (*) (map (map sqrt) posterior_variance_t) noise) (\<lambda>scaled_noise.
           bind_r (tensor_op (+) model_mean scaled_noise) (\<lambda>r. Inr (r, g')))))))))))"

text \<open>
  The body of \<open>for i in reversed(range(timesteps))\<close>, run over the list of the remaining
  indices: the state is the current image, the list \<open>imgs\<close> and the generator.
\<close>

fun p_sample_for ::
  "nat \<Rightarrow> network \<Rightarrow> nat \<Rightarrow> nat list \<Rightarrow> tensor \<Rightarrow> tensor list \<Rightarrow> rng
     \<Rightarrow> error + (tensor list \<times> rng)" where
  "p_sample_for timesteps model b [] img imgs g = Inr (imgs, g)"
| "p_sample_for timesteps model b (i # rest) img imgs g =
     bind_r (p_sample timesteps model img (replicate b (int i)) (int i) g) (\<lambda>(img', g').
       p_sample_for timesteps model b rest img' (imgs @ [img']) g')"

text \<open>
  \<open>p_sample_loop\<close> first reads the device of the network's first parameter:
  \<open>next(model.parameters())\<close> raises \<open>StopIteration\<close> for a network without parameters.
  \<open>shape\<close> is the tuple \<open>(b, ...)\<close>; \<open>shape[0]\<close> raises on the empty tuple.  The image
  starts as pure noise of that shape.  Devices themselves are not modelled.
\<close>

definition p_sample_loop ::
  "nat \<Rightarrow> network \<Rightarrow> nat list \<Rightarrow> rng \<Rightarrow> error + (tensor list \<times> rng)" where
  "p_sample_loop timesteps model shape g =
     (case parameters model of
        [] \<Rightarrow> Inl StopIteration
      | device_holder # others \<Rightarrow>
          (case shape of
             [] \<Rightarrow> Inl IndexError
           | b # dims \<Rightarrow>
               let (img, g') = randn b (prod_list dims) g in
               p_sample_for timesteps model b (rev [0..<timesteps]) img [] g'))"

text \<open>
  \<open>sample\<close> asks for square images; its defaults \<open>batch_size=16\<close> and \<open>channels=3\<close> are
  left to the caller.
\<close>

definition sample ::
  "nat \<Rightarrow> network \<Rightarrow> nat \<Rightarrow> nat \<Rightarrow> nat \<Rightarrow> rng \<Rightarrow> error + (tensor list \<times> rng)" where
  "sample timesteps model image_size batch_size channels g =
     p_sample_loop timesteps model [batch_size, channels, image_size, image_size] g"

section \<open>Notions used to state the properties\<close>

text \<open>A timestep vector is valid for \<open>T\<close> timesteps when every entry lies in \<open>[0, T)\<close>.\<close>

definition valid_t :: "nat \<Rightarrow> int list \<Rightarrow> bool" where
  "valid_t T t = list_all (\<lambda>i. 0 \<le> i \<and> i < int T) t"

text \<open>
  \<open>torch.zeros_like\<close>; the network with parameters \<open>ps\<close> that predicts zero noise, and
  the one that predicts its input.
\<close>

definition zeros_like :: "tensor \<Rightarrow> tensor" where
  "zeros_like x = map (map (\<lambda>v. 0)) x"

definition zero_model :: "tensor list \<Rightarrow> network" where
  "zero_model ps = \<lparr>parameters = ps, forward = (\<lambda>x t. zeros_like x)\<rparr>"

definition echo_model :: "tensor list \<Rightarrow> network" where
  "echo_model ps = \<lparr>parameters = ps, forward = (\<lambda>x t. x)\<rparr>"

text \<open>A network keeps shapes when its prediction has the shape of its input batch.\<close>

definition shape_preserving :: "network \<Rightarrow> bool" where
  "shape_preserving model = (\<forall>x t. shape_of (forward model x t) = shape_of x)"


definition posterior_mean :: "nat \<Rightarrow> network \<Rightarrow> tensor \<Rightarrow> int list \<Rightarrow> tensor" where
  "posterior_mean T model x t =
     map (\<lambda>i. map (\<lambda>(v, m).
            sqrt (1 / alphas T ! nat (t ! i))
            * (v - betas T ! nat (t ! i) * m / sqrt (1 - alphas_cumprod T ! nat (t ! i))))
          (zip (x ! i) (forward model x t ! i))) [0..<length x]"

definition add_noise :: "nat \<Rightarrow> int list \<Rightarrow> tensor \<Rightarrow> tensor \<Rightarrow> tensor" where
  "add_noise T t mu z =
     map (\<lambda>i. map (\<lambda>(m, n). m + sqrt (posterior_variance T ! nat (t ! i)) * n)
          (zip (mu ! i) (z ! i))) [0..<length mu]"


section \<open>The network, at the level of shapes\<close>

text \<open>
  The U-Net is followed through the shapes of its tensors: a layer is the function from
  the shape of its input to the shape of its output, or to the error the layer raises for
  that shape.  A constructor's arguments come first, the arguments of \<open>forward\<close> last.
  The values in the tensors, the weights and the checks a constructor makes on its own
  arguments are left out.  Images have the four axes batch, channels, height and width.
\<close>

record shape4 =
  batch :: nat
  chans :: nat
  height :: nat
  width :: nat

type_synonym layer = "shape4 \<Rightarrow> error + shape4"

type_synonym emb_shape = "nat \<times> nat"

type_synonym time_layer = "shape4 \<Rightarrow> emb_shape option \<Rightarrow> error + shape4"

text \<open>
  \<open>default(x, d)\<close>: \<open>x\<close> when it is given, \<open>d\<close> (or what \<open>d\<close> computes) otherwise.  The
  primes on \<open>default'\<close> and on the argument \<open>dim'\<close> keep them apart from constants of the
  library.
\<close>

definition default' :: "'a option \<Rightarrow> 'a \<Rightarrow> 'a" where
  "default' x d = (case x of Some v \<Rightarrow> v | None \<Rightarrow> d)"

text \<open>
  Broadcasting of two shapes, axis by axis, as the entrywise operators do it, and
  \<open>torch.cat(..., dim=1)\<close>, which joins along the channels and wants every other axis equal.
\<close>

definition broadcast_dim :: "nat \<Rightarrow> nat \<Rightarrow> error + nat" where
  "broadcast_dim m n =
     (if m = n then Inr m else if m = 1 then Inr n else if n = 1 then Inr m
      else Inl RuntimeError)"

definition broadcast_shapes :: "shape4 \<Rightarrow> shape4 \<Rightarrow> error + shape4" where
  "broadcast_shapes x y =
     bind_r (broadcast_dim (batch x) (batch y)) (\<lambda>b.
     bind_r (broadcast_dim (chans x) (chans y)) (\<lambda>c.
     bind_r (broadcast_dim (height x) (height y)) (\<lambda>h.
     bind_r (broadcast_dim (width x) (width y)) (\<lambda>w.
       Inr \<lparr>batch = b, chans = c, height = h, width = w\<rparr>))))"

definition cat_channels :: "shape4 \<Rightarrow> shape4 \<Rightarrow> error + shape4" where
  "cat_channels x y =
     (if batch x = batch y \<and> height x = height y \<and> width x = width y
      then Inr (x\<lparr>chans := chans x + chans y\<rparr>)
      else Inl RuntimeError)"

text \<open>
  The library's layers.  A convolution (stride 1) wants its number of input channels and
  a kernel that fits the padded image; group normalisation wants its number of channels
  and keeps the shape; a linear layer wants its number of input features.
  \<open>WeightStandardizedConv2d\<close> changes the weights of a convolution, not its shapes.
\<close>

definition Conv2d :: "nat \<Rightarrow> nat \<Rightarrow> nat \<Rightarrow> nat \<Rightarrow> layer" where
  "Conv2d in_channels out_channels kernel_size padding x =
     (if chans x = in_channels
         \<and> kernel_size \<le> height x + 2 * padding \<and> kernel_size \<le> width x + 2 * padding
      then Inr (x\<lparr>chans := out_channels,
                  height := height x + 2 * padding - (kernel_size - 1),
                  width := width x + 2 * padding - (kernel_size - 1)\<rparr>)
      else Inl RuntimeError)"

definition GroupNorm :: "nat \<Rightarrow> nat \<Rightarrow> layer" where
  "GroupNorm num_groups num_channels x =
     (if chans x = num_channels then Inr x else Inl RuntimeError)"

definition Linear :: "nat \<Rightarrow> nat \<Rightarrow> emb_shape \<Rightarrow> error + emb_shape" where
  "Linear in_features out_features e =
     (if snd e = in_features then Inr (fst e, out_features) else Inl RuntimeError)"

text \<open>
  \<open>Residual(fn)\<close> adds its input to the output of \<open>fn\<close>.  \<open>Downsample\<close> moves every 2 by 2
  patch into the channels (which needs even height and width) and convolves with a 1 by 1
  kernel; \<open>Upsample\<close> doubles height and width and convolves with a padded 3 by 3 kernel.
\<close>

definition Residual :: "layer \<Rightarrow> layer" where
  "Residual fn x = bind_r (fn x) (\<lambda>y. broadcast_shapes y x)"

definition Rearrange_patches :: layer where
  "Rearrange_patches x =
     (if height x mod 2 = 0 \<and> width x mod 2 = 0
      then Inr \<lparr>batch = batch x, chans = chans x * 2 * 2,
                height = height x div 2, width = width x div 2\<rparr>
      else Inl RuntimeError)"

definition Downsample :: "nat \<Rightarrow> nat option \<Rightarrow> layer" where
  "Downsample dim' dim_out x =
     bind_r (Rearrange_patches x) (Conv2d (dim' * 4) (default' dim_out dim') 1 0)"

definition nn_Upsample :: layer where
  "nn_Upsample x = Inr (x\<lparr>height := 2 * height x, width := 2 * width x\<rparr>)"

definition Upsample :: "nat \<Rightarrow> nat option \<Rightarrow> layer" where
  "Upsample dim' dim_out x = bind_r (nn_Upsample x) (Conv2d dim' (default' dim_out dim') 3 1)"

text \<open>
  The time embedding of a vector of \<open>time\<close> timesteps: \<open>half_dim\<close> sines and \<open>half_dim\<close>
  cosines per timestep.  The division by \<open>half_dim - 1\<close> raises for \<open>half_dim = 1\<close>.
\<close>

definition SinusoidalPositionEmbeddings :: "nat \<Rightarrow> nat \<Rightarrow> error + emb_shape" where
  "SinusoidalPositionEmbeddings dim' time =
     (let half_dim = dim' div 2 in
      if half_dim = 1 then Inl ZeroDivisionError
      else Inr (time, half_dim + half_dim))"

text \<open>
  \<open>Block\<close>: convolution, group normalisation, then \<open>x * (1 + scale) + shift\<close> when a scale
  and a shift are given, then the activation.  \<open>ResnetBlock\<close>: the time embedding goes
  through a linear layer to \<open>2 * dim_out\<close> features, is reshaped to \<open>(b, 2 * dim_out, 1, 1)\<close>
  and split in two along the channels; two blocks follow, and the input is added through a
  1 by 1 convolution when the channel counts differ.
\<close>

definition Block :: "nat \<Rightarrow> nat \<Rightarrow> nat \<Rightarrow> shape4 \<Rightarrow> (shape4 \<times> shape4) option \<Rightarrow> error + shape4" where
  "Block dim' dim_out groups x scale_shift =
     bind_r (Conv2d dim' dim_out 3 1 x) (\<lambda>x.
     bind_r (GroupNorm groups dim_out x) (\<lambda>x.
       case scale_shift of
         None \<Rightarrow> Inr x
       | Some (scale, shift) \<Rightarrow>
           bind_r (broadcast_shapes x scale) (\<lambda>x. broadcast_shapes x shift)))"

definition ResnetBlock :: "nat \<Rightarrow> nat \<Rightarrow> nat option \<Rightarrow> nat \<Rightarrow> time_layer" where
  "ResnetBlock dim' dim_out time_emb_dim groups x time_emb =
     bind_r
       (case (time_emb_dim, time_emb) of
          (Some d, Some e) \<Rightarrow>
            bind_r (Linear d (dim_out * 2) e) (\<lambda>e.
              let half = \<lparr>batch = fst e, chans = snd e div 2, height = 1, width = 1\<rparr>
              in Inr (Some (half, half)))
        | _ \<Rightarrow> Inr None) (\<lambda>scale_shift.
     bind_r (Block dim' dim_out groups x scale_shift) (\<lambda>h.
     bind_r (Block dim_out dim_out groups h None) (\<lambda>h.
     bind_r (if dim' \<noteq> dim_out then Conv2d dim' dim_out 1 0 x else Inr x) (\<lambda>r.
       broadcast_shapes r h))))"

text \<open>
  \<open>Attention\<close>: queries, keys and values come from one 1 by 1 convolution to
  \<open>3 * heads * dim_head\<close> channels; the attended values have \<open>heads * dim_head\<close> channels
  at every position and go through a 1 by 1 convolution back to \<open>dim\<close> channels.
  \<open>PreNorm\<close> normalises (one group) before \<open>fn\<close>.
\<close>

definition Attention :: "nat \<Rightarrow> nat \<Rightarrow> nat \<Rightarrow> layer" where
  "Attention dim' heads dim_head x =
     (let hidden_dim = dim_head * heads in
      bind_r (Conv2d dim' (hidden_dim * 3) 1 0 x) (\<lambda>qkv.
        Conv2d hidden_dim dim' 1 0 (qkv\<lparr>chans := heads * dim_head\<rparr>)))"

definition PreNorm :: "nat \<Rightarrow> layer \<Rightarrow> layer" where
  "PreNorm dim' fn x = bind_r (GroupNorm 1 dim' x) fn"

text \<open>
  The arguments of \<open>Unet.__init__\<close>, the layers it builds, and the constructor.  A stage
  of the encoder or decoder is its two residual blocks, its attention and its resampling
  layer.
\<close>

record unet_config =
  cfg_dim :: nat
  cfg_init_dim :: "nat option"
  cfg_out_dim :: "nat option"
  cfg_dim_mults :: "nat list"
  cfg_channels :: nat
  cfg_self_condition :: bool
  cfg_resnet_block_groups :: nat

type_synonym stage = "time_layer \<times> time_layer \<times> layer \<times> layer"

record unet =
  self_condition :: bool
  init_conv :: layer
  time_mlp :: "nat \<Rightarrow> error + emb_shape"
  downs :: "stage list"
  mid_block1 :: time_layer
  mid_attn :: layer
  mid_block2 :: time_layer
  ups :: "stage list"
  final_res_block :: time_layer
  final_conv :: layer

definition Unet :: "unet_config \<Rightarrow> unet" where
  "Unet cfg =
     (let dim' = cfg_dim cfg;
          channels = cfg_channels cfg;
          input_channels = channels * (if cfg_self_condition cfg then 2 else 1);
          init_dim = default' (cfg_init_dim cfg) dim';
          dims = init_dim # map (\<lambda>m. dim' * m) (cfg_dim_mults cfg);
          in_out = zip (butlast dims) (tl dims);
          block_klass = (\<lambda>d d_out t. ResnetBlock d d_out t (cfg_resnet_block_groups cfg));
          time_dim = dim' * 4;
          num_resolutions = length in_out;
          mid_dim = last dims
      in \<lparr>self_condition = cfg_self_condition cfg,
          init_conv = Conv2d input_channels init_dim 1 0,
          time_mlp = (\<lambda>time.
            bind_r (SinusoidalPositionEmbeddings dim' time) (\<lambda>e.
            bind_r (Linear dim' time_dim e) (Linear time_dim time_dim))),
          downs = map (\<lambda>(ind, dim_in, dim_out).
              (block_klass dim_in dim_in (Some time_dim),
               block_klass dim_in dim_in (Some time_dim),
               Residual (PreNorm dim_in (Attention dim_in 4 32)),
               if \<not> (int num_resolutions - 1 \<le> int ind)
               then Downsample dim_in (Some dim_out)
               else Conv2d dim_in dim_out 3 1))
            (enumerate 0 in_out),
          mid_block1 = block_klass mid_dim mid_dim (Some time_dim),
          mid_attn = Residual (PreNorm mid_dim (Attention mid_dim 4 32)),
          mid_block2 = block_klass mid_dim mid_dim (Some time_dim),
          ups = map (\<lambda>(ind, dim_in, dim_out).
              (block_klass (dim_out + dim_in) dim_out (Some time_dim),
               block_klass (dim_out + dim_in) dim_out (Some time_dim),
               Residual (PreNorm dim_out (Attention dim_out 4 32)),
               if \<not> (int ind = int (length in_out) - 1)
               then Upsample dim_out (Some dim_in)
               else Conv2d dim_out dim_in 3 1))
            (enumerate 0 (rev in_out)),
          final_res_block = block_klass (dim' * 2) dim' (Some time_dim),
          final_conv = Conv2d dim' (default' (cfg_out_dim cfg) channels) 1 0\<rparr>)"

text \<open>
  \<open>Unet.forward\<close>.  \<open>time\<close> is the number of entries of the timestep vector.  Both iterations
  run over the stages with the current tensor \<open>x\<close> and the stack \<open>h\<close> of skip connections;
  \<open>h.pop()\<close> raises on the empty stack.
\<close>

fun downs_loop :: "stage list \<Rightarrow> shape4 \<Rightarrow> emb_shape \<Rightarrow> shape4 list \<Rightarrow> error + (shape4 \<times> shape4 list)" where
  "downs_loop [] x t h = Inr (x, h)"
| "downs_loop ((block1, block2, attn, downsample) # rest) x t h =
     bind_r (block1 x (Some t)) (\<lambda>x.
     let h = h @ [x] in
     bind_r (block2 x (Some t)) (\<lambda>x.
     bind_r (attn x) (\<lambda>x.
     let h = h @ [x] in
     bind_r (downsample x) (\<lambda>x. downs_loop rest x t h))))"

definition pop :: "'a list \<Rightarrow> error + ('a \<times> 'a list)" where
  "pop h = (if h = [] then Inl IndexError else Inr (last h, butlast h))"

fun ups_loop :: "stage list \<Rightarrow> shape4 \<Rightarrow> emb_shape \<Rightarrow> shape4 list \<Rightarrow> error + (shape4 \<times> shape4 list)" where
  "ups_loop [] x t h = Inr (x, h)"
| "ups_loop ((block1, block2, attn, upsample) # rest) x t h =
     bind_r (pop h) (\<lambda>(s, h).
     bind_r (cat_channels x s) (\<lambda>x.
     bind_r (block1 x (Some t)) (\<lambda>x.
     bind_r (pop h) (\<lambda>(s, h).
     bind_r (cat_channels x s) (\<lambda>x.
     bind_r (block2 x (Some t)) (\<lambda>x.
     bind_r (attn x) (\<lambda>x.
     bind_r (upsample x) (\<lambda>x. ups_loop rest x t h))))))))"

definition Unet_forward :: "unet \<Rightarrow> shape4 \<Rightarrow> nat \<Rightarrow> shape4 option \<Rightarrow> error + shape4" where
  "Unet_forward u x time x_self_cond =
     bind_r (if self_condition u then cat_channels (default' x_self_cond x) x else Inr x) (\<lambda>x.
     bind_r (init_conv u x) (\<lambda>x.
     let r = x in
     bind_r (time_mlp u time) (\<lambda>t.
     bind_r (downs_loop (downs u) x t []) (\<lambda>(x, h).
     bind_r (mid_block1 u x (Some t)) (\<lambda>x.
     bind_r (mid_attn u x) (\<lambda>x.
     bind_r (mid_block2 u x (Some t)) (\<lambda>x.
     bind_r (ups_loop (ups u) x t h) (\<lambda>(x, h).
     bind_r (cat_channels x r) (\<lambda>x.
     bind_r (final_res_block u x (Some t)) (\<lambda>x.
       final_conv u x))))))))))"

text \<open>
  The network the notebook builds: \<open>Unet(dim=28, channels=1, dim_mults=(1, 2, 4))\<close>.
\<close>

definition notebook_cfg :: unet_config where
  "notebook_cfg = \<lparr>cfg_dim = 28, cfg_init_dim = None, cfg_out_dim = None,
     cfg_dim_mults = [1, 2, 4], cfg_channels = 1, cfg_self_condition = False,
     cfg_resnet_block_groups = 4\<rparr>"

text \<open>
  A batch size is stable under a time embedding of batch size \<open>bt\<close> when broadcasting the
  two gives the batch size back.
\<close>

definition stable :: "nat \<Rightarrow> nat \<Rightarrow> bool" where
  "stable bt b = (b = bt \<or> bt = 1)"

section \<open>Properties of the schedule\<close>

lemma length_linspace: "length (linspace a b n) = n"
  by (simp add: linspace_def)

lemma length_cumprod_from: "length (cumprod_from acc xs) = length xs"
  by (induction xs arbitrary: acc) simp_all

lemma length_betas: "length (betas T) = T"
  by (simp add: betas_def linear_beta_schedule_def length_linspace)

lemma length_alphas: "length (alphas T) = T"
  by (simp add: alphas_def length_betas)

lemma length_alphas_cumprod: "length (alphas_cumprod T) = T"
  by (simp add: alphas_cumprod_def cumprod_def length_cumprod_from length_alphas)

lemma nth_linspace: "i < n \<Longrightarrow> linspace a b n ! i = a + real i * ((b - a) / real (n - 1))"
  by (auto simp: linspace_def)

lemma nth_betas: "i < T \<Longrightarrow> betas T ! i = beta_start + real i * ((beta_end - beta_start) / real (T - 1))"
  by (simp add: betas_def linear_beta_schedule_def nth_linspace)

lemma betas_last: "2 \<le> T \<Longrightarrow> betas T ! (T - 1) = beta_end"
  by (simp add: nth_betas)

lemma betas_bounds: assumes "i < T" shows "beta_start \<le> betas T ! i \<and> betas T ! i \<le> beta_end"
proof -
  have d: "0 \<le> beta_end - beta_start" by (simp add: beta_start_def beta_end_def)
  have r: "0 \<le> real i / real (T - 1) \<and> real i / real (T - 1) \<le> 1"
    using assms by (cases "T - 1 = 0") (auto simp: divide_le_eq)
  have e: "betas T ! i = beta_start + (real i / real (T - 1)) * (beta_end - beta_start)"
    using assms by (simp add: nth_betas)
  have "(real i / real (T - 1)) * (beta_end - beta_start) \<le> 1 * (beta_end - beta_start)"
    using r d by (intro mult_right_mono) auto
  moreover have "0 \<le> (real i / real (T - 1)) * (beta_end - beta_start)"
    using r d by simp
  ultimately show ?thesis unfolding e by simp
qed

lemma nth_alphas: "i < T \<Longrightarrow> alphas T ! i = 1 - betas T ! i"
  by (simp add: alphas_def length_betas)

lemma alphas_bounds: "i < T \<Longrightarrow> 0 < alphas T ! i \<and> alphas T ! i < 1"
  using betas_bounds [of i T] by (simp add: nth_alphas beta_start_def beta_end_def)

lemma nth_cumprod_from:
  "i < length xs \<Longrightarrow> cumprod_from acc xs ! i = acc * (\<Prod>j\<le>i. xs ! j)"
proof (induction xs arbitrary: acc i)
  case Nil
  then show ?case by simp
next
  case (Cons x xs)
  show ?case
  proof (cases i)
    case 0
    then show ?thesis by simp
  next
    case (Suc k)
    have "(\<Prod>j\<le>Suc k. (x # xs) ! j) = x * (\<Prod>j\<le>k. xs ! j)"
      by (simp add: prod.atMost_Suc_shift del: prod.atMost_Suc)
    with Cons Suc show ?thesis by simp
  qed
qed

lemma nth_alphas_cumprod: "i < T \<Longrightarrow> alphas_cumprod T ! i = (\<Prod>j\<le>i. alphas T ! j)"
  by (simp add: alphas_cumprod_def cumprod_def nth_cumprod_from length_alphas)

lemma alphas_cumprod_Suc:
  "Suc i < T \<Longrightarrow> alphas_cumprod T ! Suc i = alphas_cumprod T ! i * alphas T ! Suc i"
  by (simp add: nth_alphas_cumprod)

lemma alphas_cumprod_pos: assumes "i < T" shows "0 < alphas_cumprod T ! i"
proof -
  have "0 < alphas T ! j" if "j \<in> {..i}" for j
    using that assms alphas_bounds [of j T] by simp
  then have "0 < (\<Prod>j\<le>i. alphas T ! j)" by (rule prod_pos)
  then show ?thesis using assms by (simp add: nth_alphas_cumprod)
qed

lemma alphas_cumprod_step: assumes "Suc i < T" shows "alphas_cumprod T ! Suc i \<le> alphas_cumprod T ! i"
proof -
  have "alphas_cumprod T ! i * alphas T ! Suc i \<le> alphas_cumprod T ! i * 1"
    using assms alphas_cumprod_pos [of i T] alphas_bounds [of "Suc i" T]
    by (intro mult_left_mono) auto
  then show ?thesis using assms by (simp add: alphas_cumprod_Suc)
qed

lemma alphas_cumprod_mono_aux: "s + d < T \<Longrightarrow> alphas_cumprod T ! (s + d) \<le> alphas_cumprod T ! s"
proof (induction d)
  case 0
  then show ?case by simp
next
  case (Suc d)
  then have "alphas_cumprod T ! Suc (s + d) \<le> alphas_cumprod T ! (s + d)"
    by (intro alphas_cumprod_step) simp
  with Suc show ?case by simp
qed

text \<open>
  Claim C4.  For timesteps \<open>s \<le> t\<close> below \<open>T\<close>, the cumulative product of the alphas of
  the linear schedule at \<open>t\<close> is at most the one at \<open>s\<close>: it never increases with the
  timestep.
\<close>

theorem alphas_cumprod_antimono:
  "s \<le> t \<Longrightarrow> t < T \<Longrightarrow> alphas_cumprod T ! t \<le> alphas_cumprod T ! s"
  using alphas_cumprod_mono_aux [of s "t - s" T] by simp

theorem alphas_cumprod_antimono_witness:
  "(0::nat) \<le> 2 \<and> (2::nat) < 3 \<and> alphas_cumprod 3 ! 2 \<le> alphas_cumprod 3 ! 0"
  using alphas_cumprod_antimono [of 0 2 3] by simp

lemma nth_alphas_cumprod_0: "1 \<le> T \<Longrightarrow> alphas_cumprod T ! 0 = 1 - beta_start"
  by (simp add: nth_alphas_cumprod nth_alphas nth_betas)

lemma length_alphas_cumprod_prev: "1 \<le> T \<Longrightarrow> length (alphas_cumprod_prev T) = T"
  by (simp add: alphas_cumprod_prev_def pad_left_def length_alphas_cumprod)

lemma length_posterior_variance: "1 \<le> T \<Longrightarrow> length (posterior_variance T) = T"
  by (simp add: posterior_variance_def length_betas length_alphas_cumprod length_alphas_cumprod_prev)

lemma alphas_cumprod_less_1: assumes "i < T" shows "alphas_cumprod T ! i < 1"
proof -
  have "alphas_cumprod T ! i \<le> alphas_cumprod T ! 0"
    using assms alphas_cumprod_mono_aux [of 0 i T] by simp
  also have "\<dots> < 1" using assms by (simp add: nth_alphas_cumprod_0 beta_start_def)
  finally show ?thesis .
qed

subsection \<open>Rounding to float32\<close>

lemma round_he_le: assumes "x \<le> of_int k" shows "round_he x \<le> k"
proof -
  have f: "\<lfloor>x\<rfloor> \<le> k" using assms by (simp add: floor_le_iff)
  show ?thesis
  proof (cases "\<lfloor>x\<rfloor> = k")
    case True
    then have "x = of_int k" using assms of_int_floor_le [of x] by linarith
    then show ?thesis by (simp add: round_he_def)
  next
    case False
    then have "\<lfloor>x\<rfloor> + 1 \<le> k" using f by simp
    then show ?thesis by (simp add: round_he_def Let_def)
  qed
qed

lemma round_he_ge: assumes "of_int k \<le> x" shows "k \<le> round_he x"
proof -
  have "k \<le> \<lfloor>x\<rfloor>" using assms by (simp add: le_floor_iff)
  then show ?thesis by (simp add: round_he_def Let_def)
qed

lemma round_he_of_int [simp]: "round_he (of_int k) = k"
  by (simp add: round_he_def)

lemma floor_log2_bounds:
  assumes "0 < x"
  shows "2 powr of_int \<lfloor>log 2 x\<rfloor> \<le> x" and "x < 2 powr (of_int \<lfloor>log 2 x\<rfloor> + 1)"
proof -
  show "2 powr of_int \<lfloor>log 2 x\<rfloor> \<le> x"
    using le_log_iff [of 2 x "of_int \<lfloor>log 2 x\<rfloor>"] assms by simp
  have "log 2 x < of_int \<lfloor>log 2 x\<rfloor> + 1" by linarith
  then show "x < 2 powr (of_int \<lfloor>log 2 x\<rfloor> + 1)"
    using log_less_iff [of 2 x "of_int \<lfloor>log 2 x\<rfloor> + 1"] assms by simp
qed

lemma floor_log2_eq:
  assumes "2 powr of_int e \<le> x" and "x < 2 powr (of_int e + 1)"
  shows "\<lfloor>log 2 x\<rfloor> = e"
proof -
  have "0 < (2::real) powr of_int e" by simp
  then have x: "0 < x" using assms(1) by linarith
  have "of_int e \<le> log 2 x" using assms(1) x by (simp add: le_log_iff)
  moreover have "log 2 x < of_int e + 1" using assms(2) x by (simp add: log_less_iff)
  ultimately show ?thesis by linarith
qed

lemma fl32_of_pos:
  "0 < x \<Longrightarrow> fl32 x =
     of_int (round_he (x / 2 powr (of_int (max \<lfloor>log 2 x\<rfloor> (- 126)) - 23)))
       * 2 powr (of_int (max \<lfloor>log 2 x\<rfloor> (- 126)) - 23)"
  by (simp add: fl32_def Let_def)

lemma fl32_nonneg: assumes "0 \<le> x" shows "0 \<le> fl32 x"
proof (cases "x = 0")
  case True then show ?thesis by (simp add: fl32_def)
next
  case False
  define e where "e = max \<lfloor>log 2 \<bar>x\<bar>\<rfloor> (- 126)"
  have "of_int 0 \<le> x / 2 powr (of_int e - 23)" using assms by simp
  then have "0 \<le> round_he (x / 2 powr (of_int e - 23))" by (rule round_he_ge)
  then show ?thesis using False by (simp add: fl32_def e_def [symmetric])
qed

lemma fl32_le_repr:
  assumes le: "x \<le> of_int m * 2 powr (of_int e - 23)"
    and m: "0 \<le> m" "m < 2 ^ 24" and e: "- 126 \<le> e"
  shows "fl32 x \<le> of_int m * 2 powr (of_int e - 23)"
proof (cases "0 < x")
  case False
  show ?thesis
  proof (cases "x = 0")
    case True then show ?thesis using m by (simp add: fl32_def)
  next
    case F: False
    define ex where "ex = max \<lfloor>log 2 \<bar>x\<bar>\<rfloor> (- 126)"
    have "x / 2 powr (of_int ex - 23) \<le> of_int 0"
      using False by (simp add: divide_le_0_iff)
    then have "round_he (x / 2 powr (of_int ex - 23)) \<le> 0" by (rule round_he_le)
    then have "fl32 x \<le> 0"
      using F by (simp add: fl32_def ex_def [symmetric] mult_le_0_iff)
    also have "0 \<le> real_of_int m * 2 powr (of_int e - 23)" using m by simp
    finally show ?thesis .
  qed
next
  case True
  define ex where "ex = max \<lfloor>log 2 x\<rfloor> (- 126)"
  define u :: real where "u = 2 powr (of_int ex - 23)"
  have u: "0 < u" by (simp add: u_def)
  have "real_of_int m * 2 powr (of_int e - 23) < 2 ^ 24 * 2 powr (of_int e - 23)"
    using m by simp
  also have "\<dots> = 2 powr (of_int e + 1)"
    by (simp add: powr_diff powr_add)
  finally have "x < 2 powr (of_int e + 1)" using le by simp
  then have "log 2 x < of_int e + 1" using True by (simp add: log_less_iff)
  then have "\<lfloor>log 2 x\<rfloor> \<le> e" by linarith
  then have ex: "ex \<le> e" using e True by (simp add: ex_def)
  have p: "(2::real) powr (of_int e - of_int ex) = 2 ^ nat (e - ex)"
    using ex powr_realpow [of 2 "nat (e - ex)"] by simp
  have "2 powr (of_int e - 23) = 2 powr (of_int e - of_int ex) * u"
    by (simp add: u_def powr_add [symmetric])
  then have c: "of_int m * 2 powr (of_int e - 23) = of_int (m * 2 ^ nat (e - ex)) * u"
    by (simp add: p)
  have "x / u \<le> of_int (m * 2 ^ nat (e - ex))"
    using le u unfolding c by (simp add: pos_divide_le_eq)
  then have "round_he (x / u) \<le> m * 2 ^ nat (e - ex)" by (rule round_he_le)
  then have "of_int (round_he (x / u)) * u \<le> of_int (m * 2 ^ nat (e - ex)) * u"
    using u by (simp only: mult_le_cancel_right_pos of_int_le_iff)
  then show ?thesis unfolding c fl32_of_pos [OF True] ex_def [symmetric] u_def .
qed

lemma fl32_pos:
  assumes "2 powr (- 126) \<le> x"
  shows "0 < fl32 x"
proof -
  have "0 < (2::real) powr (- 126)" by simp
  then have x: "0 < x" using assms by linarith
  have "of_int (- 126) \<le> log 2 x" using assms x by (simp add: le_log_iff)
  then have "- 126 \<le> \<lfloor>log 2 x\<rfloor>" by (simp add: le_floor_iff)
  then have ex: "max \<lfloor>log 2 x\<rfloor> (- 126) = \<lfloor>log 2 x\<rfloor>" by simp
  define u :: real where "u = 2 powr (of_int \<lfloor>log 2 x\<rfloor> - 23)"
  have u: "0 < u" by (simp add: u_def)
  have "2 powr of_int \<lfloor>log 2 x\<rfloor> = 2 ^ 23 * u" by (simp add: u_def powr_diff)
  then have "2 ^ 23 * u \<le> x" using floor_log2_bounds(1) [OF x] by simp
  then have "of_int 1 \<le> x / u" using u by (simp add: pos_le_divide_eq)
  then have "1 \<le> round_he (x / u)" by (rule round_he_ge)
  then have "0 < of_int (round_he (x / u)) * u" using u by simp
  then show ?thesis unfolding fl32_of_pos [OF x] ex u_def .
qed

lemma fl32_repr:
  assumes "2 ^ 23 \<le> m" "m < 2 ^ 24" "- 126 \<le> e"
  shows "fl32 (of_int m * 2 powr (of_int e - 23)) = of_int m * 2 powr (of_int e - 23)"
proof -
  define x :: real where "x = of_int m * 2 powr (of_int e - 23)"
  have "(2::real) powr of_int e = 2 ^ 23 * 2 powr (of_int e - 23)" by (simp add: powr_diff)
  also have "\<dots> \<le> x" using assms(1) unfolding x_def by simp
  finally have lo: "2 powr of_int e \<le> x" .
  have "x < 2 ^ 24 * 2 powr (of_int e - 23)" using assms(2) unfolding x_def by simp
  also have "\<dots> = 2 powr (of_int e + 1)" by (simp add: powr_diff powr_add)
  finally have hi: "x < 2 powr (of_int e + 1)" .
  have "0 < (2::real) powr of_int e" by simp
  then have x: "0 < x" using lo by linarith
  have "\<lfloor>log 2 x\<rfloor> = e" using lo hi by (rule floor_log2_eq)
  then have ex: "max \<lfloor>log 2 x\<rfloor> (- 126) = e" using assms(3) by simp
  have "fl32 x = of_int (round_he (x / 2 powr (of_int e - 23))) * 2 powr (of_int e - 23)"
    unfolding fl32_of_pos [OF x] ex ..
  also have "x / 2 powr (of_int e - 23) = of_int m" by (simp add: x_def)
  finally show ?thesis by (simp add: x_def)
qed

subsection \<open>The float32 schedule\<close>

lemma round_he_eval:
  assumes "of_int m - 1 / 2 < x" and "x < of_int m + 1 / 2"
  shows "round_he x = m"
proof (cases "of_int m \<le> x")
  case True
  then have "\<lfloor>x\<rfloor> = m" using assms(2) by linarith
  then show ?thesis using assms(2) by (simp add: round_he_def)
next
  case False
  then have "\<lfloor>x\<rfloor> = m - 1" using assms(1) by linarith
  then show ?thesis using assms(1) by (simp add: round_he_def)
qed

lemma fl32_eval:
  assumes "2 powr of_int e \<le> x" and "x < 2 powr (of_int e + 1)" and "- 126 \<le> e"
    and "of_int m - 1 / 2 < x / 2 powr (of_int e - 23)"
    and "x / 2 powr (of_int e - 23) < of_int m + 1 / 2"
  shows "fl32 x = of_int m * 2 powr (of_int e - 23)"
proof -
  have "0 < (2::real) powr of_int e" by simp
  then have x: "0 < x" using assms(1) by linarith
  have "\<lfloor>log 2 x\<rfloor> = e" using assms(1,2) by (rule floor_log2_eq)
  then have ex: "max \<lfloor>log 2 x\<rfloor> (- 126) = e" using assms(3) by simp
  show ?thesis
    unfolding fl32_of_pos [OF x] ex round_he_eval [OF assms(4,5)] ..
qed

lemma fl32_beta_start: "fl32 (1 / 10000) = 13743895 / 2 ^ 37"
  using fl32_eval [of "- 14" "1 / 10000" 13743895] by (simp add: powr_minus)

lemma fl32_alpha_0: "fl32 (1 - 13743895 / 2 ^ 37) = 16775538 / 2 ^ 24"
  using fl32_eval [of "- 1" "1 - 13743895 / 2 ^ 37" 16775538] by (simp add: powr_minus)

lemma fl32_divisor_0: "fl32 (1 - 16775538 / 2 ^ 24) = 1678 / 2 ^ 24"
  using fl32_repr [of 13746176 "- 14"] by (simp add: powr_minus)

lemma fl32_alpha_0_repr: "fl32 (16775538 / 2 ^ 24) = 16775538 / 2 ^ 24"
  using fl32_repr [of 16775538 "- 1"] by (simp add: powr_minus)

lemma fl32_0 [simp]: "fl32 0 = 0"
  by (simp add: fl32_def)

lemma fl32_le_1: "x \<le> 1 \<Longrightarrow> fl32 x \<le> 1"
  using fl32_le_repr [of x "2 ^ 23" 0] by (simp add: powr_minus)

lemma fl32_le_alpha_0: "x \<le> 16775538 / 2 ^ 24 \<Longrightarrow> fl32 x \<le> 16775538 / 2 ^ 24"
  using fl32_le_repr [of x 16775538 "- 1"] by (simp add: powr_minus)

lemma length_betas32: "length (betas32 T) = T"
  by (simp add: betas32_def linspace32_def length_linspace)

lemma nth_betas32: "i < T \<Longrightarrow> betas32 T ! i = fl32 (betas T ! i)"
  by (simp add: betas32_def linspace32_def betas_def linear_beta_schedule_def length_linspace)

lemma betas32_0: "1 \<le> T \<Longrightarrow> betas32 T ! 0 = 13743895 / 2 ^ 37"
  by (simp add: nth_betas32 nth_betas beta_start_def fl32_beta_start)

lemma betas32_bounds: assumes "i < T" shows "0 \<le> betas32 T ! i \<and> betas32 T ! i \<le> 1"
proof -
  have "0 \<le> betas T ! i" "betas T ! i \<le> 1"
    using betas_bounds [OF assms] by (simp_all add: beta_start_def beta_end_def)
  then show ?thesis using assms by (simp add: nth_betas32 fl32_nonneg fl32_le_1)
qed

lemma length_alphas32: "length (alphas32 T) = T"
  by (simp add: alphas32_def length_betas32)

lemma nth_alphas32: "i < T \<Longrightarrow> alphas32 T ! i = fl32 (1 - betas32 T ! i)"
  by (simp add: alphas32_def length_betas32)

lemma alphas32_0: "1 \<le> T \<Longrightarrow> alphas32 T ! 0 = 16775538 / 2 ^ 24"
  using fl32_alpha_0 by (simp add: nth_alphas32 betas32_0)

lemma alphas32_bounds: assumes "i < T" shows "0 \<le> alphas32 T ! i \<and> alphas32 T ! i \<le> 1"
  using betas32_bounds [OF assms] assms by (simp add: nth_alphas32 fl32_nonneg fl32_le_1)

lemma length_cumprod32_from: "length (cumprod32_from acc xs) = length xs"
  by (induction xs arbitrary: acc) simp_all

lemma cumprod32_from_bounds:
  assumes "0 \<le> acc" and "acc \<le> 16775538 / 2 ^ 24"
    and "\<forall>x\<in>set xs. 0 \<le> x \<and> x \<le> 1" and "i < length xs"
  shows "0 \<le> cumprod32_from acc xs ! i \<and> cumprod32_from acc xs ! i \<le> 16775538 / 2 ^ 24"
  using assms
proof (induction xs arbitrary: acc i)
  case Nil
  then show ?case by simp
next
  case (Cons x xs)
  have x: "0 \<le> x" "x \<le> 1" using Cons.prems(3) by simp_all
  have "acc * x \<le> acc * 1" using x Cons.prems(1) by (intro mult_left_mono) simp_all
  then have le: "acc * x \<le> 16775538 / 2 ^ 24" using Cons.prems(2) by simp
  have nn: "0 \<le> acc * x" using x Cons.prems(1) by simp
  have 1: "0 \<le> fl32 (acc * x)" using nn by (rule fl32_nonneg)
  have 2: "fl32 (acc * x) \<le> 16775538 / 2 ^ 24" using le by (rule fl32_le_alpha_0)
  show ?case
  proof (cases i)
    case 0
    then show ?thesis using 1 2 by simp
  next
    case (Suc j)
    then have "j < length xs" using Cons.prems(4) by simp
    then show ?thesis using Cons.IH [OF 1 2 _ \<open>j < length xs\<close>] Cons.prems(3) Suc by simp
  qed
qed

lemma length_alphas_cumprod32: "length (alphas_cumprod32 T) = T"
  by (simp add: alphas_cumprod32_def length_cumprod32_from length_alphas32)

lemma alphas32_Cons:
  assumes "1 \<le> T" shows "alphas32 T = (16775538 / 2 ^ 24) # tl (alphas32 T)"
proof -
  have "alphas32 T \<noteq> []" using assms length_alphas32 [of T] by auto
  then have "alphas32 T = hd (alphas32 T) # tl (alphas32 T)" by simp
  moreover have "hd (alphas32 T) = alphas32 T ! 0"
    using \<open>alphas32 T \<noteq> []\<close> by (simp add: hd_conv_nth)
  ultimately show ?thesis using alphas32_0 [OF assms] by simp
qed

lemma alphas_cumprod32_Cons:
  assumes "1 \<le> T"
  shows "alphas_cumprod32 T =
      (16775538 / 2 ^ 24) # cumprod32_from (16775538 / 2 ^ 24) (tl (alphas32 T))"
  unfolding alphas_cumprod32_def
  by (subst alphas32_Cons [OF assms]) (simp only: cumprod32_from.simps mult_1 fl32_alpha_0_repr)

lemma alphas_cumprod32_0: "1 \<le> T \<Longrightarrow> alphas_cumprod32 T ! 0 = 16775538 / 2 ^ 24"
  by (simp add: alphas_cumprod32_Cons)

lemma alphas_cumprod32_le:
  assumes "i < T" shows "alphas_cumprod32 T ! i \<le> 16775538 / 2 ^ 24"
proof (cases i)
  case 0
  then show ?thesis using assms by (simp add: alphas_cumprod32_0)
next
  case (Suc j)
  have T: "1 \<le> T" using assms by simp
  have j: "j < length (tl (alphas32 T))" using assms Suc by (simp add: length_alphas32)
  have b: "\<forall>x\<in>set (tl (alphas32 T)). 0 \<le> x \<and> x \<le> 1"
  proof
    fix x assume "x \<in> set (tl (alphas32 T))"
    then have "x \<in> set (alphas32 T)" by (rule list.set_sel(2) [rotated]) (use T length_alphas32 [of T] in auto)
    then obtain k where "k < T" "x = alphas32 T ! k"
      by (auto simp: in_set_conv_nth length_alphas32)
    then show "0 \<le> x \<and> x \<le> 1" using alphas32_bounds by simp
  qed
  have "cumprod32_from (16775538 / 2 ^ 24) (tl (alphas32 T)) ! j \<le> 16775538 / 2 ^ 24"
    using cumprod32_from_bounds [OF _ _ b j] by simp
  then show ?thesis using Suc by (simp add: alphas_cumprod32_Cons [OF T])
qed

lemma divisor32_pos: assumes "i < T" shows "0 < fl32 (1 - alphas_cumprod32 T ! i)"
proof -
  have "(2::real) powr (- 126) \<le> 1678 / 2 ^ 24" by (simp add: powr_minus)
  also have "\<dots> \<le> 1 - alphas_cumprod32 T ! i" using alphas_cumprod32_le [OF assms] by simp
  finally show ?thesis by (rule fl32_pos)
qed

lemma length_alphas_cumprod_prev32: "1 \<le> T \<Longrightarrow> length (alphas_cumprod_prev32 T) = T"
  by (simp add: alphas_cumprod_prev32_def pad_left_def length_alphas_cumprod32)

lemma length_posterior_variance32: "1 \<le> T \<Longrightarrow> length (posterior_variance32 T) = T"
  by (simp add: posterior_variance32_def length_betas32 length_alphas_cumprod32
      length_alphas_cumprod_prev32)

lemma nth_posterior_variance32:
  "i < T \<Longrightarrow> posterior_variance32 T ! i =
     div32 (fl32 (betas32 T ! i * fl32 (1 - alphas_cumprod_prev32 T ! i)))
       (fl32 (1 - alphas_cumprod32 T ! i))"
  by (simp add: posterior_variance32_def length_betas32 length_alphas_cumprod32
      length_alphas_cumprod_prev32)

lemma divisor32_0: "1 \<le> T \<Longrightarrow> fl32 (1 - alphas_cumprod32 T ! 0) = 1678 / 2 ^ 24"
  using fl32_divisor_0 by (simp add: alphas_cumprod32_0)

text \<open>
  Claim C10, as amended.  In the notebook's 32-bit arithmetic and with at least one
  timestep, the shifted cumulative product starts with 1, so the first posterior variance
  is \<open>betas[0] * (1 - 1) / (1 - alphas_cumprod[0])\<close>, which is exactly zero; its divisor
  \<open>1 - alphas_cumprod[0]\<close> is \<open>1678 / 2^24\<close>, which is not zero, while \<open>betas[0]\<close> is
  \<open>13743895 / 2^37\<close>; and no entry of the posterior variance divides by zero.
\<close>

theorem posterior_variance_first:
  assumes "1 \<le> T"
  shows "alphas_cumprod_prev32 T ! 0 = 1
    \<and> betas32 T ! 0 = 13743895 / 2 ^ 37
    \<and> alphas_cumprod32 T ! 0 = 16775538 / 2 ^ 24
    \<and> fl32 (1 - alphas_cumprod32 T ! 0) = 1678 / 2 ^ 24
    \<and> posterior_variance32 T ! 0 =
        div32 (fl32 (betas32 T ! 0 * fl32 (1 - 1))) (fl32 (1 - alphas_cumprod32 T ! 0))
    \<and> posterior_variance32 T ! 0 = Some 0
    \<and> length (posterior_variance32 T) = T
    \<and> (\<forall>i<T. posterior_variance32 T ! i =
          div32 (fl32 (betas32 T ! i * fl32 (1 - alphas_cumprod_prev32 T ! i)))
            (fl32 (1 - alphas_cumprod32 T ! i))
          \<and> fl32 (1 - alphas_cumprod32 T ! i) \<noteq> 0
          \<and> posterior_variance32 T ! i \<noteq> None)"
proof -
  have p0: "alphas_cumprod_prev32 T ! 0 = 1"
    by (simp add: alphas_cumprod_prev32_def pad_left_def)
  have T: "0 < T" using assms by simp
  note pv = nth_posterior_variance32
  have dz: "fl32 (1 - alphas_cumprod32 T ! i) \<noteq> 0" if "i < T" for i
    using divisor32_pos [OF that] by simp
  have nn: "posterior_variance32 T ! i \<noteq> None" if "i < T" for i
    using dz [OF that] by (simp add: pv [OF that] div32_def)
  have z': "posterior_variance32 T ! 0 =
        div32 (fl32 (betas32 T ! 0 * fl32 (1 - 1))) (fl32 (1 - alphas_cumprod32 T ! 0))"
    using pv [OF T] by (simp add: p0)
  have z: "posterior_variance32 T ! 0 = Some 0"
    unfolding z' using dz [OF T] by (simp add: div32_def)
  show ?thesis
    using p0 betas32_0 [OF assms] alphas_cumprod32_0 [OF assms] divisor32_0 [OF assms] z z'
      length_posterior_variance32 [OF assms] pv dz nn by blast
qed

text \<open>
  The divisor of the first entry is not \<open>betas[0]\<close>: \<open>1 - betas[0]\<close> is rounded to 24 bits
  below one, which drops the low bits of \<open>betas[0]\<close>.
\<close>

theorem posterior_variance_first_counterexample:
  "fl32 (1 - alphas_cumprod32 1000 ! 0) = 1678 / 2 ^ 24
   \<and> betas32 1000 ! 0 = 13743895 / 2 ^ 37
   \<and> fl32 (1 - alphas_cumprod32 1000 ! 0) \<noteq> betas32 1000 ! 0"
  by (simp add: divisor32_0 betas32_0)

theorem posterior_variance_first_witness:
  "(1::nat) \<le> 1000 \<and> posterior_variance32 1000 ! 0 = Some 0
   \<and> fl32 (1 - alphas_cumprod32 1000 ! 999) \<noteq> 0
   \<and> posterior_variance32 1000 ! 999 \<noteq> None"
proof -
  have T: "(1::nat) \<le> 1000" by simp
  note A = posterior_variance_first [OF T]
  have z: "posterior_variance32 1000 ! 0 = Some 0" using A by blast
  have "\<forall>i<1000. fl32 (1 - alphas_cumprod32 1000 ! i) \<noteq> 0
      \<and> posterior_variance32 1000 ! i \<noteq> None"
    using A by blast
  then have "fl32 (1 - alphas_cumprod32 1000 ! 999) \<noteq> 0
      \<and> posterior_variance32 1000 ! 999 \<noteq> None"
    by (elim allE [of _ 999]) simp
  then show ?thesis using z T by blast
qed

text \<open>
  Claim C8.  \<open>num_to_groups(10, 4)\<close> is \<open>[4, 4, 2]\<close>: the quotient's two copies of the
  divisor, then the remainder, which is positive.
\<close>

theorem num_to_groups_10_4:
  "num_to_groups 10 4 = Inr [4, 4, 2]
   \<and> num_to_groups 10 4 = Inr (replicate (nat (10 div 4)) 4 @ [10 mod 4])
   \<and> (10::int) mod 4 > 0"
  by (simp add: num_to_groups_def Let_def numeral_2_eq_2)

text \<open>
  Claim C3.  The schedule is a function of the number of timesteps and the two ends of the
  beta range: \<open>betas\<close> has \<open>T\<close> linearly spaced entries, the first \<open>beta_start\<close> and (from
  two timesteps on) the last \<open>beta_end\<close>; \<open>alphas\<close> is one minus \<open>betas\<close>;
  \<open>alphas_cumprod\<close> holds the products of the alphas up to each index;
  \<open>alphas_cumprod_prev\<close> is \<open>alphas_cumprod\<close> with a 1 in front and its last entry dropped;
  the three remaining vectors are the entrywise square roots.
\<close>

theorem schedule_computation:
  "length (betas T) = T
   \<and> (\<forall>i<T. betas T ! i = beta_start + real i * ((beta_end - beta_start) / real (T - 1)))
   \<and> (1 \<le> T \<longrightarrow> betas T ! 0 = beta_start)
   \<and> (2 \<le> T \<longrightarrow> betas T ! (T - 1) = beta_end)
   \<and> length (alphas T) = T
   \<and> (\<forall>i<T. alphas T ! i = 1 - betas T ! i)
   \<and> length (alphas_cumprod T) = T
   \<and> (\<forall>i<T. alphas_cumprod T ! i = (\<Prod>j\<le>i. alphas T ! j))
   \<and> alphas_cumprod_prev T = 1 # butlast (alphas_cumprod T)
   \<and> sqrt_recip_alphas T = map (\<lambda>a. sqrt (1 / a)) (alphas T)
   \<and> sqrt_alphas_cumprod T = map sqrt (alphas_cumprod T)
   \<and> sqrt_one_minus_alphas_cumprod T = map (\<lambda>a. sqrt (1 - a)) (alphas_cumprod T)"
proof -
  have 1: "\<forall>i<T. betas T ! i = beta_start + real i * ((beta_end - beta_start) / real (T - 1))"
    by (simp add: nth_betas)
  have 2: "1 \<le> T \<longrightarrow> betas T ! 0 = beta_start" by (simp add: nth_betas)
  have 3: "2 \<le> T \<longrightarrow> betas T ! (T - 1) = beta_end" using betas_last [of T] by blast
  have 4: "\<forall>i<T. alphas T ! i = 1 - betas T ! i" by (simp add: nth_alphas)
  have 5: "\<forall>i<T. alphas_cumprod T ! i = (\<Prod>j\<le>i. alphas T ! j)"
    by (simp add: nth_alphas_cumprod)
  have 6: "alphas_cumprod_prev T = 1 # butlast (alphas_cumprod T)"
    by (simp add: alphas_cumprod_prev_def pad_left_def)
  show ?thesis
    using 1 2 3 4 5 6 length_betas length_alphas length_alphas_cumprod
    unfolding sqrt_recip_alphas_def sqrt_alphas_cumprod_def sqrt_one_minus_alphas_cumprod_def
    by blast
qed

theorem schedule_computation_witness:
  "betas 3 ! 2 = 2 / 100 \<and> betas 3 ! 0 = 1 / 10000 \<and> alphas 3 ! 1 = 1 - betas 3 ! 1
   \<and> alphas_cumprod 3 ! 1 = alphas 3 ! 0 * alphas 3 ! 1"
  using schedule_computation [of 3]
  by (simp add: beta_start_def beta_end_def)

section \<open>Properties of the tensor operations\<close>

lemma bind_r_InrE:
  assumes "bind_r m f = Inr y"
  obtains v where "m = Inr v" and "f v = Inr y"
  using assms by (cases m) (simp_all add: bind_r_def)

lemma bind_r_Inr [simp]: "bind_r (Inr v) f = f v"
  by (simp add: bind_r_def)

lemma bind_r_Inl [simp]: "bind_r (Inl e) f = Inl e"
  by (simp add: bind_r_def)

lemma sequence_r_Inr: "sequence_r (map (\<lambda>p. Inr (h p)) ps) = Inr (map h ps)"
  by (induction ps) simp_all

lemma map_upt_nth: "map (\<lambda>i. h (xs ! i)) [0..<length xs] = map h xs"
  by (intro nth_equalityI) simp_all

lemma row_op_left: "row_op f [c] ys = Inr (map (f c) ys)"
proof (cases "length ys = 1")
  case True
  then obtain y where "ys = [y]" by (cases ys) auto
  then show ?thesis by (simp add: row_op_def broadcast_lists_def)
next
  case False
  then show ?thesis by (auto simp: row_op_def broadcast_lists_def)
qed

lemma row_op_right: "row_op f xs [c] = Inr (map (\<lambda>u. f u c) xs)"
proof (cases "length xs = 1")
  case True
  then obtain x where "xs = [x]" by (cases xs) auto
  then show ?thesis by (simp add: row_op_def broadcast_lists_def)
next
  case False
  then show ?thesis by (auto simp: row_op_def broadcast_lists_def)
qed

lemma row_op_same:
  "length xs = length ys \<Longrightarrow> row_op f xs ys = Inr (map (\<lambda>(u, v). f u v) (zip xs ys))"
  by (simp add: row_op_def broadcast_lists_def)

lemma tensor_op_col_left:
  assumes "length cs = length x"
  shows "tensor_op f (map (\<lambda>c. [c]) cs) x =
         Inr (map (\<lambda>i. map (f (cs ! i)) (x ! i)) [0..<length x])"
proof -
  have "tensor_op f (map (\<lambda>c. [c]) cs) x =
      sequence_r (map (\<lambda>(r, s). row_op f r s) (zip (map (\<lambda>c. [c]) cs) x))"
    using assms by (simp add: tensor_op_def broadcast_lists_def)
  also have "map (\<lambda>(r, s). row_op f r s) (zip (map (\<lambda>c. [c]) cs) x) =
      map (\<lambda>p. Inr (map (f (fst p)) (snd p))) (zip cs x)"
    by (simp add: zip_map1 row_op_left case_prod_unfold)
  also have "sequence_r \<dots> = Inr (map (\<lambda>p. map (f (fst p)) (snd p)) (zip cs x))"
    by (rule sequence_r_Inr)
  also have "map (\<lambda>p. map (f (fst p)) (snd p)) (zip cs x) =
      map (\<lambda>i. map (f (cs ! i)) (x ! i)) [0..<length x]"
    using assms by (intro nth_equalityI) simp_all
  finally show ?thesis .
qed

lemma tensor_op_col_right:
  assumes "length cs = length x"
  shows "tensor_op f x (map (\<lambda>c. [c]) cs) =
         Inr (map (\<lambda>i. map (\<lambda>u. f u (cs ! i)) (x ! i)) [0..<length x])"
proof -
  have "tensor_op f x (map (\<lambda>c. [c]) cs) =
      sequence_r (map (\<lambda>(r, s). row_op f r s) (zip x (map (\<lambda>c. [c]) cs)))"
    using assms by (simp add: tensor_op_def broadcast_lists_def)
  also have "map (\<lambda>(r, s). row_op f r s) (zip x (map (\<lambda>c. [c]) cs)) =
      map (\<lambda>p. Inr (map (\<lambda>u. f u (snd p)) (fst p))) (zip x cs)"
    by (simp add: zip_map2 row_op_right case_prod_unfold)
  also have "sequence_r \<dots> = Inr (map (\<lambda>p. map (\<lambda>u. f u (snd p)) (fst p)) (zip x cs))"
    by (rule sequence_r_Inr)
  also have "map (\<lambda>p. map (\<lambda>u. f u (snd p)) (fst p)) (zip x cs) =
      map (\<lambda>i. map (\<lambda>u. f u (cs ! i)) (x ! i)) [0..<length x]"
    using assms by (intro nth_equalityI) simp_all
  finally show ?thesis .
qed

lemma tensor_op_col_one:
  "tensor_op f [[c]] x = Inr (map (map (f c)) x)"
proof (cases "length x = 1")
  case True
  then obtain r where "x = [r]" by (cases x) auto
  then show ?thesis by (simp add: tensor_op_def broadcast_lists_def row_op_left)
next
  case False
  have "tensor_op f [[c]] x = sequence_r (map (\<lambda>(r, s). row_op f r s) (map (Pair [c]) x))"
    using False by (simp add: tensor_op_def broadcast_lists_def)
  also have "map (\<lambda>(r, s). row_op f r s) (map (Pair [c]) x) = map (\<lambda>p. Inr (map (f c) p)) x"
    by (simp add: row_op_left)
  also have "sequence_r \<dots> = Inr (map (map (f c)) x)"
    by (rule sequence_r_Inr)
  finally show ?thesis .
qed

lemma tensor_op_same:
  assumes "shape_of a = shape_of b"
  shows "tensor_op f a b =
         Inr (map (\<lambda>i. map (\<lambda>(u, v). f u v) (zip (a ! i) (b ! i))) [0..<length a])"
proof -
  have len: "length a = length b" using assms by (metis shape_of_def length_map)
  have rows: "length (a ! i) = length (b ! i)" if "i < length a" for i
    using assms that len by (metis shape_of_def nth_map)
  have "tensor_op f a b = sequence_r (map (\<lambda>(r, s). row_op f r s) (zip a b))"
    using len by (simp add: tensor_op_def broadcast_lists_def)
  also have "map (\<lambda>(r, s). row_op f r s) (zip a b) =
      map (\<lambda>p. Inr (map (\<lambda>(u, v). f u v) (zip (fst p) (snd p)))) (zip a b)"
    using len rows by (intro nth_equalityI) (simp_all add: row_op_same)
  also have "sequence_r \<dots> = Inr (map (\<lambda>p. map (\<lambda>(u, v). f u v) (zip (fst p) (snd p))) (zip a b))"
    by (rule sequence_r_Inr)
  also have "map (\<lambda>p. map (\<lambda>(u, v). f u v) (zip (fst p) (snd p))) (zip a b) =
      map (\<lambda>i. map (\<lambda>(u, v). f u v) (zip (a ! i) (b ! i))) [0..<length a]"
    using len by (intro nth_equalityI) simp_all
  finally show ?thesis .
qed

lemma extract_t_ok:
  "valid_t (length a) t \<Longrightarrow> extract_t a t = Inr (map (\<lambda>c. [c]) (map (\<lambda>i. a ! nat i) t))"
  by (simp add: extract_t_def gather_def valid_t_def)

lemma extract_t_bad:
  "\<not> valid_t (length a) t \<Longrightarrow> extract_t a t = Inl RuntimeError"
  by (simp add: extract_t_def gather_def valid_t_def)

lemma shape_randn_like: "shape_of (fst (randn_like x g)) = shape_of x"
  by (induction x arbitrary: g) (simp_all add: shape_of_def draw_def Let_def split_beta)

lemma tensor_op_coef:
  assumes "length cs = length x \<or> length cs = 1"
  shows "tensor_op f (map (\<lambda>c. [c]) cs) x =
         Inr (map (\<lambda>i. map (f (cs ! (if length cs = 1 then 0 else i))) (x ! i)) [0..<length x])"
proof (cases "length cs = 1")
  case True
  then obtain c where cs: "cs = [c]" by (cases cs) auto
  have "map (map (f c)) x = map (\<lambda>i. map (f c) (x ! i)) [0..<length x]"
    by (rule map_upt_nth [symmetric])
  then show ?thesis using cs by (simp add: tensor_op_col_one)
next
  case False
  then show ?thesis using assms by (simp add: tensor_op_col_left)
qed

lemma length_sqrt_alphas_cumprod: "length (sqrt_alphas_cumprod T) = T"
  by (simp add: sqrt_alphas_cumprod_def length_alphas_cumprod)

lemma length_sqrt_one_minus_alphas_cumprod: "length (sqrt_one_minus_alphas_cumprod T) = T"
  by (simp add: sqrt_one_minus_alphas_cumprod_def length_alphas_cumprod)

lemma length_sqrt_recip_alphas: "length (sqrt_recip_alphas T) = T"
  by (simp add: sqrt_recip_alphas_def length_alphas)

lemma valid_t_nth: "valid_t T t \<Longrightarrow> i < length t \<Longrightarrow> 0 \<le> t ! i \<and> nat (t ! i) < T"
  by (auto simp: valid_t_def list_all_length)

lemma q_sample_Some:
  assumes v: "valid_t T t"
    and sh: "shape_of eps = shape_of x0"
    and len: "length t = length x0 \<or> length t = 1"
  shows "q_sample T x0 t (Some eps) g =
     Inr (map (\<lambda>i. map (\<lambda>(v, e).
              sqrt (alphas_cumprod T ! nat (t ! (if length t = 1 then 0 else i))) * v
              + sqrt (1 - alphas_cumprod T ! nat (t ! (if length t = 1 then 0 else i))) * e)
            (zip (x0 ! i) (eps ! i))) [0..<length x0], g)"
proof -
  define sel where "sel i = (if length t = 1 then 0 else i)" for i :: nat
  define ca where "ca = map (\<lambda>k. sqrt_alphas_cumprod T ! nat k) t"
  define cb where "cb = map (\<lambda>k. sqrt_one_minus_alphas_cumprod T ! nat k) t"
  define lhs where "lhs = map (\<lambda>i. map ((*) (ca ! sel i)) (x0 ! i)) [0..<length x0]"
  define rhs where "rhs = map (\<lambda>i. map ((*) (cb ! sel i)) (eps ! i)) [0..<length x0]"
  have leneps: "length eps = length x0" using sh by (metis shape_of_def length_map)
  have rows: "length (eps ! i) = length (x0 ! i)" if "i < length x0" for i
    using sh that leneps by (metis shape_of_def nth_map)
  have sel: "sel i < length t" if "i < length x0" for i
    using len that by (auto simp: sel_def)
  have e1: "extract_t (sqrt_alphas_cumprod T) t = Inr (map (\<lambda>c. [c]) ca)"
    using v by (simp add: extract_t_ok length_sqrt_alphas_cumprod ca_def)
  have e2: "extract_t (sqrt_one_minus_alphas_cumprod T) t = Inr (map (\<lambda>c. [c]) cb)"
    using v by (simp add: extract_t_ok length_sqrt_one_minus_alphas_cumprod cb_def)
  have lenc: "length ca = length t" "length cb = length t"
    by (simp_all add: ca_def cb_def)
  have m1: "tensor_op (*) (map (\<lambda>c. [c]) ca) x0 = Inr lhs"
    using len by (simp add: tensor_op_coef lenc lhs_def sel_def)
  have m2: "tensor_op (*) (map (\<lambda>c. [c]) cb) eps = Inr rhs"
    using len leneps by (simp add: tensor_op_coef lenc rhs_def sel_def)
  have shp: "shape_of lhs = shape_of rhs"
    unfolding shape_of_def lhs_def rhs_def by (intro nth_equalityI) (simp_all add: rows)
  have cav: "ca ! sel i = sqrt (alphas_cumprod T ! nat (t ! sel i))" if "i < length x0" for i
    using valid_t_nth [OF v sel [OF that]] sel [OF that]
    by (simp add: ca_def sqrt_alphas_cumprod_def length_alphas_cumprod)
  have cbv: "cb ! sel i = sqrt (1 - alphas_cumprod T ! nat (t ! sel i))" if "i < length x0" for i
    using valid_t_nth [OF v sel [OF that]] sel [OF that]
    by (simp add: cb_def sqrt_one_minus_alphas_cumprod_def length_alphas_cumprod)
  have s: "tensor_op (+) lhs rhs =
      Inr (map (\<lambda>i. map (\<lambda>(u, v). u + v) (zip (lhs ! i) (rhs ! i))) [0..<length lhs])"
    by (rule tensor_op_same [OF shp])
  have fin: "map (\<lambda>i. map (\<lambda>(u, v). u + v) (zip (lhs ! i) (rhs ! i))) [0..<length lhs] =
      map (\<lambda>i. map (\<lambda>(v, e). sqrt (alphas_cumprod T ! nat (t ! sel i)) * v
              + sqrt (1 - alphas_cumprod T ! nat (t ! sel i)) * e)
            (zip (x0 ! i) (eps ! i))) [0..<length x0]"
  proof (rule nth_equalityI, goal_cases)
    case 1
    show ?case by (simp add: lhs_def)
  next
    case (2 i)
    then have i: "i < length x0" by (simp add: lhs_def)
    have "zip (lhs ! i) (rhs ! i) =
        map (\<lambda>(v, e). (ca ! sel i * v, cb ! sel i * e)) (zip (x0 ! i) (eps ! i))"
      using i by (simp add: lhs_def rhs_def zip_map_map)
    then show ?case
      using i by (simp add: lhs_def cav cbv case_prod_unfold)
  qed
  show ?thesis
    unfolding q_sample_def default_noise_def
    by (simp add: e1 e2 m1 m2 s fin sel_def)
qed

section \<open>The forward process\<close>

lemma q_sample_None:
  "q_sample T x0 t None g =
   q_sample T x0 t (Some (fst (randn_like x0 g))) (snd (randn_like x0 g))"
  by (simp add: q_sample_def default_noise_def split_beta)

lemma shape_zeros_like: "shape_of (zeros_like x) = shape_of x"
  by (simp add: zeros_like_def shape_of_def)

text \<open>
  Claim C1, as amended.  For a clean batch \<open>x0\<close>, timesteps \<open>t\<close> in \<open>[0, T)\<close> with one entry
  per sample of \<open>x0\<close> (or a single entry, which broadcasts), and noise \<open>eps\<close> of the shape of
  \<open>x0\<close>, \<open>q_sample\<close> returns \<open>sqrt(alphas_cumprod[t]) * x0 + sqrt(1 - alphas_cumprod[t]) * eps\<close>
  entry by entry, a tensor of the shape of \<open>x0\<close>, and leaves the generator alone; with zero
  noise the result is \<open>sqrt(alphas_cumprod[t]) * x0\<close>; with the noise omitted it is the
  result for the noise that \<open>randn_like\<close> draws, which has the shape of \<open>x0\<close>.
\<close>

theorem q_sample_formula:
  assumes "valid_t T t"
    and "shape_of eps = shape_of x0"
    and "length t = length x0 \<or> length t = 1"
  shows "q_sample T x0 t (Some eps) g =
     Inr (map (\<lambda>i. map (\<lambda>(v, e).
              sqrt (alphas_cumprod T ! nat (t ! (if length t = 1 then 0 else i))) * v
              + sqrt (1 - alphas_cumprod T ! nat (t ! (if length t = 1 then 0 else i))) * e)
            (zip (x0 ! i) (eps ! i))) [0..<length x0], g)
   \<and> shape_of (map (\<lambda>i. map (\<lambda>(v, e).
              sqrt (alphas_cumprod T ! nat (t ! (if length t = 1 then 0 else i))) * v
              + sqrt (1 - alphas_cumprod T ! nat (t ! (if length t = 1 then 0 else i))) * e)
            (zip (x0 ! i) (eps ! i))) [0..<length x0]) = shape_of x0
   \<and> q_sample T x0 t (Some (zeros_like x0)) g =
     Inr (map (\<lambda>i. map (\<lambda>v.
              sqrt (alphas_cumprod T ! nat (t ! (if length t = 1 then 0 else i))) * v)
            (x0 ! i)) [0..<length x0], g)
   \<and> q_sample T x0 t None g =
       q_sample T x0 t (Some (fst (randn_like x0 g))) (snd (randn_like x0 g))
   \<and> shape_of (fst (randn_like x0 g)) = shape_of x0"
proof -
  have leneps: "length eps = length x0" using assms(2) by (metis shape_of_def length_map)
  have rows: "length (eps ! i) = length (x0 ! i)" if "i < length x0" for i
    using assms(2) that leneps by (metis shape_of_def nth_map)
  have shp: "shape_of (map (\<lambda>i. map (\<lambda>(v, e).
              sqrt (alphas_cumprod T ! nat (t ! (if length t = 1 then 0 else i))) * v
              + sqrt (1 - alphas_cumprod T ! nat (t ! (if length t = 1 then 0 else i))) * e)
            (zip (x0 ! i) (eps ! i))) [0..<length x0]) = shape_of x0"
    unfolding shape_of_def by (rule nth_equalityI) (simp_all add: rows)
  have z: "map (\<lambda>i. map (\<lambda>(v, e).
              sqrt (alphas_cumprod T ! nat (t ! (if length t = 1 then 0 else i))) * v
              + sqrt (1 - alphas_cumprod T ! nat (t ! (if length t = 1 then 0 else i))) * e)
            (zip (x0 ! i) (zeros_like x0 ! i))) [0..<length x0] =
      map (\<lambda>i. map (\<lambda>v.
              sqrt (alphas_cumprod T ! nat (t ! (if length t = 1 then 0 else i))) * v)
            (x0 ! i)) [0..<length x0]"
  proof (rule nth_equalityI, goal_cases)
    case 1
    show ?case by simp
  next
    case (2 i)
    then have i: "i < length x0" by simp
    have "zip (x0 ! i) (zeros_like x0 ! i) = map (\<lambda>v. (v, 0)) (x0 ! i)"
      using i by (simp add: zeros_like_def zip_map2 zip_same_conv_map)
    then show ?case using i by simp
  qed
  show ?thesis
    using q_sample_Some [OF assms, of g]
      q_sample_Some [OF assms(1) shape_zeros_like assms(3), of g]
      shp z q_sample_None [of T x0 t g] shape_randn_like [of x0 g]
    by simp
qed

lemma alphas_cumprod_2: "alphas_cumprod 2 = [9999 / 10000, 9999 / 10000 * (98 / 100)]"
  by (simp add: alphas_cumprod_def cumprod_def alphas_def betas_def linear_beta_schedule_def
      linspace_def beta_start_def beta_end_def upt_rec)

text \<open>
  The claim as first stated lets \<open>t\<close> have any length.  For one sample and two timesteps
  the coefficients broadcast against the sample, and the result has two samples: it has
  not the shape of \<open>x0\<close>.
\<close>

theorem q_sample_shape_counterexample:
  "valid_t 2 [0, 1]
   \<and> shape_of [[0]] = shape_of [[1]]
   \<and> q_sample 2 [[1]] [0, 1] (Some [[0]]) (const_rng 0) =
       Inr ([[sqrt (alphas_cumprod 2 ! 0)], [sqrt (alphas_cumprod 2 ! 1)]], const_rng 0)
   \<and> shape_of [[sqrt (alphas_cumprod 2 ! 0)], [sqrt (alphas_cumprod 2 ! 1)]] \<noteq> shape_of [[1]]"
  by (simp add: valid_t_def shape_of_def q_sample_def default_noise_def extract_t_def gather_def
      tensor_op_def row_op_def broadcast_lists_def sqrt_alphas_cumprod_def
      sqrt_one_minus_alphas_cumprod_def alphas_cumprod_2)

theorem q_sample_formula_witness:
  "valid_t 2 [1, 0] \<and> shape_of [[0, 1], [2, 3]] = shape_of [[1, 1], [1, 1]]
   \<and> q_sample 2 [[1, 1], [1, 1]] [1, 0] (Some [[0, 1], [2, 3]]) count_rng =
      Inr ([[sqrt (alphas_cumprod 2 ! 1) * 1 + sqrt (1 - alphas_cumprod 2 ! 1) * 0,
             sqrt (alphas_cumprod 2 ! 1) * 1 + sqrt (1 - alphas_cumprod 2 ! 1) * 1],
            [sqrt (alphas_cumprod 2 ! 0) * 1 + sqrt (1 - alphas_cumprod 2 ! 0) * 2,
             sqrt (alphas_cumprod 2 ! 0) * 1 + sqrt (1 - alphas_cumprod 2 ! 0) * 3]], count_rng)"
proof -
  have v: "valid_t 2 [1, 0]" by (simp add: valid_t_def)
  have s: "shape_of [[0, 1], [2, 3]] = shape_of [[1, 1], [1, 1]]" by (simp add: shape_of_def)
  have l: "length [1, 0 :: int] = length [[1, 1], [1, 1 :: real]] \<or> length [1, 0 :: int] = 1"
    by simp
  show ?thesis
    using q_sample_formula [OF v s l, of count_rng] v s by (simp add: upt_rec)
qed

section \<open>The reverse process\<close>

lemma length_posterior_variance': "length (posterior_variance T) = T"
  by (cases "T = 0")
    (simp_all add: posterior_variance_def length_betas length_alphas_cumprod
      alphas_cumprod_prev_def pad_left_def)

lemma shape_ofD:
  assumes "shape_of a = shape_of b"
  shows "length a = length b" and "i < length b \<Longrightarrow> length (a ! i) = length (b ! i)"
proof -
  show l: "length a = length b" using assms by (metis shape_of_def length_map)
  show "length (a ! i) = length (b ! i)" if "i < length b"
    using assms that l by (metis shape_of_def nth_map)
qed

lemma shape_posterior_mean:
  assumes "shape_of (forward model x t) = shape_of x"
  shows "shape_of (posterior_mean T model x t) = shape_of x"
  unfolding shape_of_def posterior_mean_def
  by (rule nth_equalityI) (simp_all add: shape_ofD [OF assms])

lemma shape_add_noise:
  assumes "shape_of z = shape_of mu"
  shows "shape_of (add_noise T t mu z) = shape_of mu"
  unfolding shape_of_def add_noise_def
  by (rule nth_equalityI) (simp_all add: shape_ofD [OF assms])

lemma map_sqrt_col: "map (map sqrt) (map (\<lambda>c. [c]) cs) = map (\<lambda>c. [c]) (map sqrt cs)"
  by simp

lemma p_sample_eq:
  assumes v: "valid_t T t"
    and len: "length t = length x"
    and shm: "shape_of (forward model x t) = shape_of x"
  shows "p_sample T model x t t_index g =
     (if t_index = 0 then Inr (posterior_mean T model x t, g)
      else Inr (add_noise T t (posterior_mean T model x t) (fst (randn_like x g)),
                snd (randn_like x g)))"
proof -
  define m where "m = forward model x t"
  define z where "z = fst (randn_like x g)"
  define cb where "cb = map (\<lambda>k. betas T ! nat k) t"
  define cs where "cs = map (\<lambda>k. sqrt_one_minus_alphas_cumprod T ! nat k) t"
  define cr where "cr = map (\<lambda>k. sqrt_recip_alphas T ! nat k) t"
  define cp where "cp = map (\<lambda>k. posterior_variance T ! nat k) t"
  define scaled where "scaled = map (\<lambda>i. map ((*) (cb ! i)) (m ! i)) [0..<length m]"
  define quot where "quot = map (\<lambda>i. map (\<lambda>u. u / cs ! i) (scaled ! i)) [0..<length scaled]"
  define diff where "diff = map (\<lambda>i. map (\<lambda>(u, v). u - v) (zip (x ! i) (quot ! i))) [0..<length x]"
  define mu where "mu = map (\<lambda>i. map ((*) (cr ! i)) (diff ! i)) [0..<length diff]"
  define sn where "sn = map (\<lambda>i. map ((*) (map sqrt cp ! i)) (z ! i)) [0..<length z]"
  have lenc: "length cb = length x" "length cs = length x" "length cr = length x"
    "length cp = length x"
    by (simp_all add: cb_def cs_def cr_def cp_def len)
  have lm: "length m = length x" and rm: "\<And>i. i < length x \<Longrightarrow> length (m ! i) = length (x ! i)"
    using shape_ofD [OF shm] by (simp_all add: m_def)
  have shz: "shape_of z = shape_of x" by (simp add: z_def shape_randn_like)
  have lz: "length z = length x" and rz: "\<And>i. i < length x \<Longrightarrow> length (z ! i) = length (x ! i)"
    using shape_ofD [OF shz] by simp_all
  have e1: "extract_t (betas T) t = Inr (map (\<lambda>c. [c]) cb)"
    using v by (simp add: extract_t_ok length_betas cb_def)
  have e2: "extract_t (sqrt_one_minus_alphas_cumprod T) t = Inr (map (\<lambda>c. [c]) cs)"
    using v by (simp add: extract_t_ok length_sqrt_one_minus_alphas_cumprod cs_def)
  have e3: "extract_t (sqrt_recip_alphas T) t = Inr (map (\<lambda>c. [c]) cr)"
    using v by (simp add: extract_t_ok length_sqrt_recip_alphas cr_def)
  have e4: "extract_t (posterior_variance T) t = Inr (map (\<lambda>c. [c]) cp)"
    using v by (simp add: extract_t_ok length_posterior_variance' cp_def)
  have o1: "tensor_op (*) (map (\<lambda>c. [c]) cb) m = Inr scaled"
    by (simp add: tensor_op_col_left lenc lm scaled_def)
  have o2: "tensor_op (/) scaled (map (\<lambda>c. [c]) cs) = Inr quot"
    by (simp add: tensor_op_col_right lenc lm scaled_def quot_def)
  have shq: "shape_of x = shape_of quot"
    unfolding shape_of_def quot_def scaled_def
    by (rule nth_equalityI) (simp_all add: lm rm)
  have o3: "tensor_op (-) x quot = Inr diff"
    by (simp add: tensor_op_same [OF shq] diff_def)
  have o4: "tensor_op (*) (map (\<lambda>c. [c]) cr) diff = Inr mu"
    by (simp add: tensor_op_col_left lenc diff_def mu_def)
  have o5: "tensor_op (*) (map (\<lambda>c. [c]) (map sqrt cp)) z = Inr sn"
  proof -
    have "length (map sqrt cp) = length z" by (simp add: lenc lz)
    from tensor_op_col_left [OF this] show ?thesis unfolding sn_def .
  qed
  have mu: "mu = posterior_mean T model x t"
    unfolding mu_def posterior_mean_def
  proof (rule nth_equalityI, goal_cases)
    case 1
    show ?case by (simp add: diff_def)
  next
    case (2 i)
    then have i: "i < length x" by (simp add: diff_def)
    have ti: "nat (t ! i) < T" using valid_t_nth [OF v, of i] i len by simp
    have "diff ! i = map (\<lambda>(u, w). u - cb ! i * w / cs ! i) (zip (x ! i) (m ! i))"
      using i by (simp add: diff_def quot_def scaled_def lm zip_map2 case_prod_unfold)
    moreover have "cb ! i = betas T ! nat (t ! i)" using i len by (simp add: cb_def)
    moreover have "cs ! i = sqrt (1 - alphas_cumprod T ! nat (t ! i))"
      using i len ti by (simp add: cs_def sqrt_one_minus_alphas_cumprod_def length_alphas_cumprod)
    moreover have "cr ! i = sqrt (1 / alphas T ! nat (t ! i))"
      using i len ti by (simp add: cr_def sqrt_recip_alphas_def length_alphas)
    ultimately show ?case
      using i by (simp add: diff_def m_def case_prod_unfold)
  qed
  have shs: "shape_of mu = shape_of sn"
    unfolding mu shape_of_def sn_def posterior_mean_def
    by (rule nth_equalityI) (simp_all add: lz rz rm [unfolded m_def])
  have o6: "tensor_op (+) mu sn =
      Inr (map (\<lambda>i. map (\<lambda>(u, v). u + v) (zip (mu ! i) (sn ! i))) [0..<length mu])"
    by (rule tensor_op_same [OF shs])
  have lmu: "length mu = length x" by (simp add: mu posterior_mean_def)
  have fin: "map (\<lambda>i. map (\<lambda>(u, v). u + v) (zip (mu ! i) (sn ! i))) [0..<length mu] =
      add_noise T t mu z"
    unfolding add_noise_def
  proof (rule nth_equalityI, goal_cases)
    case 1
    show ?case by simp
  next
    case (2 i)
    then have i: "i < length x" by (simp add: lmu)
    have "cp ! i = posterior_variance T ! nat (t ! i)" using i len by (simp add: cp_def)
    then show ?case
      using i by (simp add: lmu sn_def lz lenc zip_map2 case_prod_unfold)
  qed
  have o5': "tensor_op (*) (map (map sqrt) (map (\<lambda>c. [c]) cp)) z = Inr sn"
    unfolding map_sqrt_col by (rule o5)
  have "p_sample T model x t t_index g =
     (if t_index = 0 then Inr (mu, g) else Inr (add_noise T t mu z, snd (randn_like x g)))"
    unfolding p_sample_def
    by (simp add: e1 e2 e3 e4 o1 [unfolded m_def] o2 o3 o4 o5' o6 fin split_beta
        z_def [symmetric] del: map_map)
  then show ?thesis by (simp add: mu z_def)
qed

lemma valid_t_replicate: "i < T \<Longrightarrow> valid_t T (replicate b (int i))"
  by (simp add: valid_t_def list_all_length)

lemma shape_of_length: "shape_of a = shape_of b \<Longrightarrow> length a = length b"
  by (metis shape_of_def length_map)

lemma p_sample_step:
  assumes sp: "shape_preserving model" and i: "i < T"
  shows "\<exists>img' g'. p_sample T model img (replicate (length img) (int i)) (int i) g = Inr (img', g')
           \<and> shape_of img' = shape_of img"
proof -
  have shm: "shape_of (forward model img (replicate (length img) (int i))) = shape_of img"
    using sp by (simp add: shape_preserving_def)
  have pm: "shape_of (posterior_mean T model img (replicate (length img) (int i))) = shape_of img"
    using shm
    by (rule shape_posterior_mean [where model = model and x = img
          and t = "replicate (length img) (int i)"])
  have an: "shape_of (add_noise T (replicate (length img) (int i))
        (posterior_mean T model img (replicate (length img) (int i))) (fst (randn_like img g)))
      = shape_of img"
    using shape_add_noise [of "fst (randn_like img g)"
        "posterior_mean T model img (replicate (length img) (int i))" T
        "replicate (length img) (int i)"]
    by (simp add: pm shape_randn_like)
  show ?thesis
    using p_sample_eq [where model = model and x = img and t = "replicate (length img) (int i)"
        and T = T and t_index = "int i" and g = g, OF valid_t_replicate [OF i] _ shm] pm an
    by (cases "i = 0") simp_all
qed

lemma p_sample_for_run:
  assumes sp: "shape_preserving model"
  shows "list_all (\<lambda>i. i < T) ixs \<Longrightarrow>
     \<exists>out gs. p_sample_for T model (length img) ixs img imgs g = Inr (imgs @ out, last (g # gs))
       \<and> length out = length ixs \<and> length gs = length ixs
       \<and> (\<forall>k<length ixs.
             p_sample T model ((img # out) ! k) (replicate (length img) (int (ixs ! k)))
               (int (ixs ! k)) ((g # gs) ! k) = Inr (out ! k, gs ! k))
       \<and> (\<forall>k<length ixs. shape_of (out ! k) = shape_of img)"
proof (induction ixs arbitrary: img imgs g)
  case Nil
  then show ?case by simp
next
  case (Cons i rest)
  then have i: "i < T" and rest: "list_all (\<lambda>i. i < T) rest" by simp_all
  obtain img' g' where st: "p_sample T model img (replicate (length img) (int i)) (int i) g = Inr (img', g')"
    and sh: "shape_of img' = shape_of img"
    using p_sample_step [OF sp i] by blast
  have len: "length img' = length img" by (rule shape_of_length [OF sh])
  obtain out gs where run: "p_sample_for T model (length img') rest img' (imgs @ [img']) g' =
        Inr ((imgs @ [img']) @ out, last (g' # gs))"
    and lo: "length out = length rest" and lg: "length gs = length rest"
    and steps: "\<forall>k<length rest.
             p_sample T model ((img' # out) ! k) (replicate (length img') (int (rest ! k)))
               (int (rest ! k)) ((g' # gs) ! k) = Inr (out ! k, gs ! k)"
    and shapes: "\<forall>k<length rest. shape_of (out ! k) = shape_of img'"
    using Cons.IH [OF rest, of img' "imgs @ [img']" g'] by blast
  have c: "\<forall>k<length (i # rest). shape_of ((img' # out) ! k) = shape_of img"
    using shapes sh by (simp add: nth_Cons split: nat.splits)
  have a: "p_sample_for T model (length img) (i # rest) img imgs g =
      Inr (imgs @ (img' # out), last (g # g' # gs))"
    using st run by (simp add: len)
  have b: "\<forall>k<length (i # rest).
             p_sample T model ((img # img' # out) ! k) (replicate (length img) (int ((i # rest) ! k)))
               (int ((i # rest) ! k)) ((g # g' # gs) ! k) = Inr ((img' # out) ! k, (g' # gs) ! k)"
  proof (intro allI impI)
    fix k assume k: "k < length (i # rest)"
    show "p_sample T model ((img # img' # out) ! k) (replicate (length img) (int ((i # rest) ! k)))
               (int ((i # rest) ! k)) ((g # g' # gs) ! k) = Inr ((img' # out) ! k, (g' # gs) ! k)"
    proof (cases k)
      case 0
      then show ?thesis using st by simp
    next
      case (Suc j)
      then have "j < length rest" using k by simp
      then show ?thesis using steps Suc by (simp add: len)
    qed
  qed
  show ?case
    using a b c lo lg
    by (intro exI [of _ "img' # out"] exI [of _ "g' # gs"]) simp
qed

lemma length_randn_like: "length (fst (randn_like x g)) = length x"
  using shape_randn_like [of x g] by (rule shape_of_length)

lemma length_randn: "length (fst (randn b n g)) = b"
  by (simp add: randn_def length_randn_like)

lemma rev_upt_0: "rev [0..<T] = map (\<lambda>k. T - 1 - k) [0..<T]"
  by (rule nth_equalityI) (simp_all add: rev_nth)

lemma p_sample_loop_no_parameters:
  "parameters model = [] \<Longrightarrow> p_sample_loop T model shape g = Inl StopIteration"
  by (simp add: p_sample_loop_def)

lemma p_sample_loop_unfold:
  "parameters model \<noteq> [] \<Longrightarrow>
   p_sample_loop T model (b # dims) g =
     p_sample_for T model b (rev [0..<T]) (fst (randn b (prod_list dims) g)) []
       (snd (randn b (prod_list dims) g))"
  by (cases "parameters model") (simp_all add: p_sample_loop_def split_beta)

lemma p_sample_loop_run:
  assumes sp: "shape_preserving model" and np: "parameters model \<noteq> []"
  shows "\<exists>imgs gs. p_sample_loop T model (b # dims) g =
         Inr (imgs, last (snd (randn b (prod_list dims) g) # gs))
       \<and> length imgs = T \<and> length gs = T
       \<and> (\<forall>i<T. p_sample T model ((fst (randn b (prod_list dims) g) # imgs) ! i)
                   (replicate b (int (T - 1 - i))) (int (T - 1 - i))
                   ((snd (randn b (prod_list dims) g) # gs) ! i) = Inr (imgs ! i, gs ! i))
       \<and> (\<forall>i<T. shape_of (imgs ! i) = shape_of (fst (randn b (prod_list dims) g)))"
proof -
  define img0 where "img0 = fst (randn b (prod_list dims) g)"
  define g0 where "g0 = snd (randn b (prod_list dims) g)"
  have l0: "length img0 = b" by (simp add: img0_def length_randn)
  have ok: "list_all (\<lambda>i. i < T) (rev [0..<T])" by (simp add: list_all_iff)
  obtain out gs where run: "p_sample_for T model (length img0) (rev [0..<T]) img0 [] g0 =
        Inr ([] @ out, last (g0 # gs))"
    and lo: "length out = length (rev [0..<T])" and lg: "length gs = length (rev [0..<T])"
    and steps: "\<forall>k<length (rev [0..<T]).
             p_sample T model ((img0 # out) ! k) (replicate (length img0) (int (rev [0..<T] ! k)))
               (int (rev [0..<T] ! k)) ((g0 # gs) ! k) = Inr (out ! k, gs ! k)"
    and shapes: "\<forall>k<length (rev [0..<T]). shape_of (out ! k) = shape_of img0"
    using p_sample_for_run [OF sp ok, of img0 "[]" g0] by blast
  have idx: "rev [0..<T] ! k = T - 1 - k" if "k < T" for k
    using that by (simp add: rev_upt_0)
  have "p_sample_loop T model (b # dims) g = Inr (out, last (g0 # gs))"
    using run by (simp add: p_sample_loop_unfold [OF np] img0_def [symmetric] g0_def [symmetric] l0)
  moreover have "\<forall>i<T. p_sample T model ((img0 # out) ! i)
                   (replicate b (int (T - 1 - i))) (int (T - 1 - i))
                   ((g0 # gs) ! i) = Inr (out ! i, gs ! i)"
    using steps idx by (simp add: l0)
  ultimately show ?thesis
    using lo lg shapes unfolding img0_def g0_def
    by (intro exI [of _ out] exI [of _ gs]) simp
qed

lemma posterior_mean_entry:
  assumes "shape_of (forward model x t) = shape_of x" "i < length x" "j < length (x ! i)"
  shows "posterior_mean T model x t ! i ! j =
     sqrt (1 / alphas T ! nat (t ! i))
     * (x ! i ! j - betas T ! nat (t ! i) * (forward model x t ! i ! j)
          / sqrt (1 - alphas_cumprod T ! nat (t ! i)))"
  using assms(2,3) shape_ofD(2) [OF assms(1), of i]
  by (simp add: posterior_mean_def)

lemma add_noise_entry:
  assumes "shape_of z = shape_of mu" "i < length mu" "j < length (mu ! i)"
  shows "add_noise T t mu z ! i ! j =
     mu ! i ! j + sqrt (posterior_variance T ! nat (t ! i)) * (z ! i ! j)"
  using assms(2,3) shape_ofD(2) [OF assms(1), of i]
  by (simp add: add_noise_def)

lemma p_sample_for_Inr:
  "p_sample_for T model b ixs img imgs g = Inr (res, g') \<Longrightarrow>
     \<exists>out gs. res = imgs @ out \<and> g' = last (g # gs)
       \<and> length out = length ixs \<and> length gs = length ixs
       \<and> (\<forall>k<length ixs.
             p_sample T model ((img # out) ! k) (replicate b (int (ixs ! k)))
               (int (ixs ! k)) ((g # gs) ! k) = Inr (out ! k, gs ! k))"
proof (induction ixs arbitrary: img imgs g)
  case Nil
  then show ?case by simp
next
  case (Cons i rest)
  from Cons.prems obtain img1 g1 where
    st: "p_sample T model img (replicate b (int i)) (int i) g = Inr (img1, g1)"
    and run: "p_sample_for T model b rest img1 (imgs @ [img1]) g1 = Inr (res, g')"
    by (auto elim!: bind_r_InrE)
  obtain out gs where res: "res = (imgs @ [img1]) @ out" and g': "g' = last (g1 # gs)"
    and lo: "length out = length rest" and lg: "length gs = length rest"
    and steps: "\<forall>k<length rest.
             p_sample T model ((img1 # out) ! k) (replicate b (int (rest ! k)))
               (int (rest ! k)) ((g1 # gs) ! k) = Inr (out ! k, gs ! k)"
    using Cons.IH [OF run] by blast
  have b: "\<forall>k<length (i # rest).
             p_sample T model ((img # img1 # out) ! k) (replicate b (int ((i # rest) ! k)))
               (int ((i # rest) ! k)) ((g # g1 # gs) ! k) = Inr ((img1 # out) ! k, (g1 # gs) ! k)"
  proof (intro allI impI)
    fix k assume k: "k < length (i # rest)"
    show "p_sample T model ((img # img1 # out) ! k) (replicate b (int ((i # rest) ! k)))
               (int ((i # rest) ! k)) ((g # g1 # gs) ! k) = Inr ((img1 # out) ! k, (g1 # gs) ! k)"
    proof (cases k)
      case 0
      then show ?thesis using st by simp
    next
      case (Suc j)
      then have "j < length rest" using k by simp
      then show ?thesis using steps Suc by simp
    qed
  qed
  show ?case
    using res g' lo lg b
    by (intro exI [of _ "img1 # out"] exI [of _ "g1 # gs"]) simp
qed

lemma p_sample_loop_Inr:
  assumes "p_sample_loop T model (b # dims) g = Inr (imgs, g')"
  shows "length imgs = T
     \<and> (\<exists>gs. length gs = T \<and> g' = last (snd (randn b (prod_list dims) g) # gs)
          \<and> (\<forall>i<T. p_sample T model ((fst (randn b (prod_list dims) g) # imgs) ! i)
                 (replicate b (int (T - 1 - i))) (int (T - 1 - i))
                 ((snd (randn b (prod_list dims) g) # gs) ! i) = Inr (imgs ! i, gs ! i)))"
proof -
  define img0 where "img0 = fst (randn b (prod_list dims) g)"
  define g0 where "g0 = snd (randn b (prod_list dims) g)"
  have np: "parameters model \<noteq> []"
    using assms p_sample_loop_no_parameters [of model T "b # dims" g] by auto
  have run: "p_sample_for T model b (rev [0..<T]) img0 [] g0 = Inr (imgs, g')"
    using assms by (simp add: p_sample_loop_unfold [OF np] img0_def g0_def)
  obtain out gs where res: "imgs = [] @ out" and g': "g' = last (g0 # gs)"
    and lo: "length out = length (rev [0..<T])" and lg: "length gs = length (rev [0..<T])"
    and steps: "\<forall>k<length (rev [0..<T]).
             p_sample T model ((img0 # out) ! k) (replicate b (int (rev [0..<T] ! k)))
               (int (rev [0..<T] ! k)) ((g0 # gs) ! k) = Inr (out ! k, gs ! k)"
    using p_sample_for_Inr [OF run] by blast
  have idx: "rev [0..<T] ! k = T - 1 - k" if "k < T" for k
    using that by (simp add: rev_upt_0)
  have "\<forall>i<T. p_sample T model ((img0 # imgs) ! i)
                 (replicate b (int (T - 1 - i))) (int (T - 1 - i))
                 ((g0 # gs) ! i) = Inr (imgs ! i, gs ! i)"
    using steps idx res by simp
  then show ?thesis
    using res lo lg g' unfolding img0_def g0_def by auto
qed

lemma steps_last:
  assumes "length imgs = T" "length gs = T" "0 < T"
    and "\<forall>i<T. p_sample T model ((img0 # imgs) ! i)
                 (replicate b (int (T - 1 - i))) (int (T - 1 - i))
                 ((g0 # gs) ! i) = Inr (imgs ! i, gs ! i)"
  shows "p_sample T model ((img0 # imgs) ! (T - 1)) (replicate b 0) 0 ((g0 # gs) ! (T - 1))
          = Inr (last imgs, last (g0 # gs))"
proof -
  have ne: "imgs \<noteq> []" "gs \<noteq> []" using assms(1-3) by auto
  have "last imgs = imgs ! (T - 1)" "last gs = gs ! (T - 1)"
    using ne assms(1,2) by (simp_all add: last_conv_nth)
  then show ?thesis using assms(3,4) ne by (auto dest!: spec [of _ "T - 1"])
qed


lemma shape_preserving_echo_model: "shape_preserving (echo_model ps)"
  by (simp add: shape_preserving_def echo_model_def)

lemma posterior_mean_zero:
  assumes "\<And>x t. forward model x t = zeros_like x"
  shows "posterior_mean T model x t =
     map (\<lambda>i. map (\<lambda>v. sqrt (1 / alphas T ! nat (t ! i)) * v) (x ! i)) [0..<length x]"
  unfolding posterior_mean_def
proof (rule nth_equalityI, goal_cases)
  case 1
  show ?case by simp
next
  case (2 i)
  then have i: "i < length x" by simp
  have "zip (x ! i) (forward model x t ! i) = map (\<lambda>v. (v, 0)) (x ! i)"
    using i by (simp add: assms zeros_like_def zip_map2 zip_same_conv_map)
  then show ?case using i by simp
qed

text \<open>
  Claim C5, as amended.  With one timestep and a network that has a parameter and predicts
  zero, \<open>p_sample_loop\<close> returns the list whose only element is the initial image scaled by
  \<open>sqrt(1 / alpha_0)\<close>: no noise is added, and the generator is left as the initial draw
  left it.
\<close>

theorem p_sample_loop_single_step:
  assumes "parameters model \<noteq> []"
    and "\<forall>x t. forward model x t = zeros_like x"
  shows "p_sample_loop 1 model (b # dims) g =
     Inr ([map (map (\<lambda>v. sqrt (1 / alphas 1 ! 0) * v)) (fst (randn b (prod_list dims) g))],
          snd (randn b (prod_list dims) g))
   \<and> alphas 1 ! 0 = 9999 / 10000"
proof -
  define img0 where "img0 = fst (randn b (prod_list dims) g)"
  define g0 where "g0 = snd (randn b (prod_list dims) g)"
  have z: "forward model x t = zeros_like x" for x t using assms(2) by simp
  have l0: "length img0 = b" by (simp add: img0_def length_randn)
  have shm: "shape_of (forward model img0 (replicate b 0)) = shape_of img0"
    by (simp add: z shape_zeros_like)
  have v: "valid_t 1 (replicate b 0)" using valid_t_replicate [of 0 1 b] by simp
  have "p_sample 1 model img0 (replicate b 0) 0 g0 =
      Inr (posterior_mean 1 model img0 (replicate b 0), g0)"
    using p_sample_eq [where model = model and x = img0 and t = "replicate b 0"
        and T = 1 and t_index = 0 and g = g0, OF v _ shm]
    by (simp add: l0)
  moreover have "posterior_mean 1 model img0 (replicate b 0) =
      map (map (\<lambda>v. sqrt (1 / alphas 1 ! 0) * v)) img0"
    unfolding posterior_mean_zero [of model, OF z]
    by (rule nth_equalityI) (simp_all add: l0)
  ultimately have "p_sample_loop 1 model (b # dims) g =
      Inr ([map (map (\<lambda>v. sqrt (1 / alphas 1 ! 0) * v)) img0], g0)"
    by (simp add: p_sample_loop_unfold [OF assms(1)] img0_def [symmetric] g0_def [symmetric])
  moreover have "alphas 1 ! 0 = 9999 / 10000"
    by (simp add: nth_alphas nth_betas beta_start_def)
  ultimately show ?thesis by (simp add: img0_def g0_def)
qed

text \<open>
  A zero-predicting network without parameters: the loop raises before its first step.
\<close>

theorem p_sample_loop_single_step_counterexample:
  "p_sample_loop 1 (zero_model []) [1, 1] (const_rng 0) = Inl StopIteration"
  by (simp add: p_sample_loop_def zero_model_def)

theorem p_sample_loop_single_step_witness:
  "parameters (zero_model [[[0]]]) \<noteq> []
   \<and> p_sample_loop 1 (zero_model [[[0]]]) [1, 2] count_rng =
       Inr ([map (map (\<lambda>v. sqrt (1 / alphas 1 ! 0) * v)) (fst (randn 1 2 count_rng))],
            snd (randn 1 2 count_rng))
   \<and> fst (randn 1 2 count_rng) = [[0, 1]]"
proof -
  have p: "parameters (zero_model [[[0]]]) \<noteq> []" by (simp add: zero_model_def)
  have z: "\<forall>x t. forward (zero_model [[[0]]]) x t = zeros_like x" by (simp add: zero_model_def)
  have r: "fst (randn 1 2 count_rng) = [[0, 1]]"
    by (simp add: randn_def draw_def count_rng_def upt_rec numeral_2_eq_2)
  show ?thesis
    using p_sample_loop_single_step [OF p z, of 1 "[2]" count_rng] p r by simp
qed

lemma loop_step_formula:
  assumes sp: "shape_preserving model"
    and run: "p_sample_loop T model (b # dims) g = Inr (imgs, g')"
    and lg: "length gs = T"
    and steps: "\<forall>k<T. p_sample T model ((fst (randn b (prod_list dims) g) # imgs) ! k)
                 (replicate b (int (T - 1 - k))) (int (T - 1 - k))
                 ((snd (randn b (prod_list dims) g) # gs) ! k) = Inr (imgs ! k, gs ! k)"
    and k: "k < T"
  shows "imgs ! k =
       (if T - 1 - k = 0
        then posterior_mean T model ((fst (randn b (prod_list dims) g) # imgs) ! k)
               (replicate b (int (T - 1 - k)))
        else add_noise T (replicate b (int (T - 1 - k)))
               (posterior_mean T model ((fst (randn b (prod_list dims) g) # imgs) ! k)
                  (replicate b (int (T - 1 - k))))
               (fst (randn_like ((fst (randn b (prod_list dims) g) # imgs) ! k)
                      ((snd (randn b (prod_list dims) g) # gs) ! k))))
     \<and> gs ! k =
       (if T - 1 - k = 0 then (snd (randn b (prod_list dims) g) # gs) ! k
        else snd (randn_like ((fst (randn b (prod_list dims) g) # imgs) ! k)
                   ((snd (randn b (prod_list dims) g) # gs) ! k)))"
proof -
  define img0 where "img0 = fst (randn b (prod_list dims) g)"
  define g0 where "g0 = snd (randn b (prod_list dims) g)"
  define x where "x = (img0 # imgs) ! k"
  define gk where "gk = (g0 # gs) ! k"
  define t where "t = replicate b (int (T - 1 - k))"
  have np: "parameters model \<noteq> []"
    using run p_sample_loop_no_parameters [of model T "b # dims" g] by auto
  obtain imgs2 gs2 where run2: "p_sample_loop T model (b # dims) g = Inr (imgs2, last (g0 # gs2))"
    and shapes: "\<forall>i<T. shape_of (imgs2 ! i) = shape_of img0"
    using p_sample_loop_run [OF sp np, of T b dims g] unfolding img0_def g0_def by blast
  have same: "imgs2 = imgs" using run run2 by simp
  have shx: "shape_of x = shape_of img0"
    using shapes k unfolding x_def same by (cases k) simp_all
  have lx: "length x = b"
    using shape_of_length [OF shx] by (simp add: img0_def length_randn)
  have v: "valid_t T t" unfolding t_def by (rule valid_t_replicate) (use k in simp)
  have len: "length t = length x" by (simp add: t_def lx)
  have shm: "shape_of (forward model x t) = shape_of x"
    using sp by (simp add: shape_preserving_def)
  have eq: "p_sample T model x t (int (T - 1 - k)) gk =
     (if int (T - 1 - k) = 0 then Inr (posterior_mean T model x t, gk)
      else Inr (add_noise T t (posterior_mean T model x t) (fst (randn_like x gk)),
                snd (randn_like x gk)))"
    using v len shm by (rule p_sample_eq)
  have st: "p_sample T model x t (int (T - 1 - k)) gk = Inr (imgs ! k, gs ! k)"
    using steps k by (simp add: x_def gk_def t_def img0_def g0_def)
  show ?thesis
    using eq st
    unfolding x_def gk_def t_def img0_def g0_def
    by (simp split: if_splits)
qed

text \<open>
  Claim C9.  Whenever \<open>p_sample_loop\<close> returns, for any network, it returns a list of
  exactly \<open>T\<close> images, not a single one: its \<open>i\<close>-th element is what \<open>p_sample\<close> returns at
  timestep \<open>T - 1 - i\<close> from the element before it (from the initial noise for \<open>i = 0\<close>),
  and its last element is the result of the step at timestep 0.  It does return for every
  network that has a parameter and keeps the shape of its input, and every image then has
  the shape of the initial noise; for a network without parameters it raises
  \<open>StopIteration\<close>.
\<close>

theorem p_sample_loop_trajectory:
  "(\<forall>imgs g'. p_sample_loop T model (b # dims) g = Inr (imgs, g') \<longrightarrow>
      length imgs = T
      \<and> (\<exists>gs. length gs = T \<and> g' = last (snd (randn b (prod_list dims) g) # gs)
           \<and> (\<forall>i<T. p_sample T model ((fst (randn b (prod_list dims) g) # imgs) ! i)
                  (replicate b (int (T - 1 - i))) (int (T - 1 - i))
                  ((snd (randn b (prod_list dims) g) # gs) ! i) = Inr (imgs ! i, gs ! i))
           \<and> (0 < T \<longrightarrow>
                p_sample T model ((fst (randn b (prod_list dims) g) # imgs) ! (T - 1))
                  (replicate b 0) 0 ((snd (randn b (prod_list dims) g) # gs) ! (T - 1))
                = Inr (last imgs, g'))))
   \<and> (shape_preserving model \<and> parameters model \<noteq> [] \<longrightarrow>
        (\<exists>imgs g'. p_sample_loop T model (b # dims) g = Inr (imgs, g')
           \<and> (\<forall>i<T. shape_of (imgs ! i) = shape_of (fst (randn b (prod_list dims) g)))))
   \<and> (parameters model = [] \<longrightarrow> p_sample_loop T model (b # dims) g = Inl StopIteration)"
proof (intro conjI allI impI)
  fix imgs g'
  assume run: "p_sample_loop T model (b # dims) g = Inr (imgs, g')"
  show "length imgs = T" using p_sample_loop_Inr [OF run] by blast
  obtain gs where lg: "length gs = T"
    and g': "g' = last (snd (randn b (prod_list dims) g) # gs)"
    and steps: "\<forall>i<T. p_sample T model ((fst (randn b (prod_list dims) g) # imgs) ! i)
                 (replicate b (int (T - 1 - i))) (int (T - 1 - i))
                 ((snd (randn b (prod_list dims) g) # gs) ! i) = Inr (imgs ! i, gs ! i)"
    using p_sample_loop_Inr [OF run] by blast
  have li: "length imgs = T" using p_sample_loop_Inr [OF run] by blast
  have "0 < T \<longrightarrow>
        p_sample T model ((fst (randn b (prod_list dims) g) # imgs) ! (T - 1))
          (replicate b 0) 0 ((snd (randn b (prod_list dims) g) # gs) ! (T - 1))
        = Inr (last imgs, g')"
    using steps_last [OF li lg _ steps] g' by simp
  then show "\<exists>gs. length gs = T \<and> g' = last (snd (randn b (prod_list dims) g) # gs)
           \<and> (\<forall>i<T. p_sample T model ((fst (randn b (prod_list dims) g) # imgs) ! i)
                  (replicate b (int (T - 1 - i))) (int (T - 1 - i))
                  ((snd (randn b (prod_list dims) g) # gs) ! i) = Inr (imgs ! i, gs ! i))
           \<and> (0 < T \<longrightarrow>
                p_sample T model ((fst (randn b (prod_list dims) g) # imgs) ! (T - 1))
                  (replicate b 0) 0 ((snd (randn b (prod_list dims) g) # gs) ! (T - 1))
                = Inr (last imgs, g'))"
    using lg g' steps by blast
next
  assume "shape_preserving model \<and> parameters model \<noteq> []"
  then have sp: "shape_preserving model" and np: "parameters model \<noteq> []" by simp_all
  show "\<exists>imgs g'. p_sample_loop T model (b # dims) g = Inr (imgs, g')
           \<and> (\<forall>i<T. shape_of (imgs ! i) = shape_of (fst (randn b (prod_list dims) g)))"
    using p_sample_loop_run [OF sp np, of T b dims g] by blast
next
  assume "parameters model = []"
  then show "p_sample_loop T model (b # dims) g = Inl StopIteration"
    by (rule p_sample_loop_no_parameters)
qed

theorem p_sample_loop_trajectory_witness:
  "shape_preserving (echo_model [[[0]]]) \<and> parameters (echo_model [[[0]]]) \<noteq> []
   \<and> (\<exists>imgs g'. p_sample_loop 2 (echo_model [[[0]]]) [1, 2] count_rng = Inr (imgs, g')
        \<and> length imgs = 2)
   \<and> p_sample_loop 2 (echo_model []) [1, 2] count_rng = Inl StopIteration"
proof -
  have np: "parameters (echo_model [[[0]]]) \<noteq> []" by (simp add: echo_model_def)
  have e: "parameters (echo_model []) = []" by (simp add: echo_model_def)
  obtain imgs g' where
    run: "p_sample_loop 2 (echo_model [[[0]]]) [1, 2] count_rng = Inr (imgs, g')"
    using p_sample_loop_trajectory [of 2 "echo_model [[[0]]]" 1 "[2]" count_rng]
      shape_preserving_echo_model np by blast
  have "length imgs = 2"
    using p_sample_loop_trajectory [of 2 "echo_model [[[0]]]" 1 "[2]" count_rng] run by blast
  moreover have "p_sample_loop 2 (echo_model []) [1, 2] count_rng = Inl StopIteration"
    using p_sample_loop_trajectory [of 2 "echo_model []" 1 "[2]" count_rng] e by blast
  ultimately show ?thesis using run shape_preserving_echo_model np by blast
qed

text \<open>
  Claim C2.  One reverse step computes the posterior mean
  \<open>sqrt(1 / alpha_t) * (x - beta_t * model(x, t) / sqrt(1 - alphas_cumprod[t]))\<close>; at index 0
  it returns the mean and draws nothing, at any other index it adds
  \<open>sqrt(posterior_variance[t])\<close> times noise drawn for the occasion.  The loop runs the
  steps for \<open>T - 1, T - 2, ..., 0\<close> in this order: step \<open>k\<close> calls \<open>p_sample\<close> on the image
  before it with every timestep and the index equal to \<open>T - 1 - k\<close>, so that its image is
  the posterior mean with noise added for \<open>T - 1 - k > 0\<close> and the posterior mean alone,
  with nothing drawn, for \<open>T - 1 - k = 0\<close>; the last image is that of timestep 0.
\<close>

theorem reverse_sampling_step:
  assumes sp: "shape_preserving model" and v: "valid_t T t" and len: "length t = length x"
  shows "p_sample T model x t 0 g = Inr (posterior_mean T model x t, g)
   \<and> (t_index \<noteq> 0 \<longrightarrow>
        p_sample T model x t t_index g =
          Inr (add_noise T t (posterior_mean T model x t) (fst (randn_like x g)),
               snd (randn_like x g)))
   \<and> (\<forall>i<length x. \<forall>j<length (x ! i).
        posterior_mean T model x t ! i ! j =
          sqrt (1 / alphas T ! nat (t ! i))
          * (x ! i ! j - betas T ! nat (t ! i) * (forward model x t ! i ! j)
               / sqrt (1 - alphas_cumprod T ! nat (t ! i))))
   \<and> (\<forall>i<length x. \<forall>j<length (x ! i).
        add_noise T t (posterior_mean T model x t) (fst (randn_like x g)) ! i ! j =
          posterior_mean T model x t ! i ! j
          + sqrt (posterior_variance T ! nat (t ! i)) * (fst (randn_like x g) ! i ! j))
   \<and> (\<forall>imgs g'. p_sample_loop T model (b # dims) g = Inr (imgs, g') \<longrightarrow>
        length imgs = T
        \<and> (\<exists>gs. length gs = T \<and> g' = last (snd (randn b (prod_list dims) g) # gs)
             \<and> (\<forall>k<T.
                  p_sample T model ((fst (randn b (prod_list dims) g) # imgs) ! k)
                    (replicate b (int (T - 1 - k))) (int (T - 1 - k))
                    ((snd (randn b (prod_list dims) g) # gs) ! k) = Inr (imgs ! k, gs ! k)
                  \<and> imgs ! k =
                      (if T - 1 - k = 0
                       then posterior_mean T model
                              ((fst (randn b (prod_list dims) g) # imgs) ! k)
                              (replicate b (int (T - 1 - k)))
                       else add_noise T (replicate b (int (T - 1 - k)))
                              (posterior_mean T model
                                 ((fst (randn b (prod_list dims) g) # imgs) ! k)
                                 (replicate b (int (T - 1 - k))))
                              (fst (randn_like ((fst (randn b (prod_list dims) g) # imgs) ! k)
                                     ((snd (randn b (prod_list dims) g) # gs) ! k))))
                  \<and> gs ! k =
                      (if T - 1 - k = 0 then (snd (randn b (prod_list dims) g) # gs) ! k
                       else snd (randn_like ((fst (randn b (prod_list dims) g) # imgs) ! k)
                                  ((snd (randn b (prod_list dims) g) # gs) ! k))))
             \<and> (0 < T \<longrightarrow>
                  last imgs =
                    posterior_mean T model
                      ((fst (randn b (prod_list dims) g) # imgs) ! (T - 1)) (replicate b 0))))
   \<and> (parameters model \<noteq> [] \<longrightarrow>
        (\<exists>imgs g'. p_sample_loop T model (b # dims) g = Inr (imgs, g')))"
proof -
  have shm: "shape_of (forward model x t) = shape_of x"
    using sp by (simp add: shape_preserving_def)
  have pm: "shape_of (posterior_mean T model x t) = shape_of x"
    using shm by (rule shape_posterior_mean)
  have eq: "p_sample T model x t k g =
     (if k = 0 then Inr (posterior_mean T model x t, g)
      else Inr (add_noise T t (posterior_mean T model x t) (fst (randn_like x g)),
                snd (randn_like x g)))" for k
    using v len shm by (rule p_sample_eq)
  have 1: "p_sample T model x t 0 g = Inr (posterior_mean T model x t, g)"
    using eq [of 0] by simp
  have 2: "t_index \<noteq> 0 \<longrightarrow>
        p_sample T model x t t_index g =
          Inr (add_noise T t (posterior_mean T model x t) (fst (randn_like x g)),
               snd (randn_like x g))"
    using eq [of t_index] by simp
  have 3: "\<forall>i<length x. \<forall>j<length (x ! i).
        posterior_mean T model x t ! i ! j =
          sqrt (1 / alphas T ! nat (t ! i))
          * (x ! i ! j - betas T ! nat (t ! i) * (forward model x t ! i ! j)
               / sqrt (1 - alphas_cumprod T ! nat (t ! i)))"
    using posterior_mean_entry [OF shm] by blast
  have shz: "shape_of (fst (randn_like x g)) = shape_of (posterior_mean T model x t)"
    by (simp add: pm shape_randn_like)
  have 4: "\<forall>i<length x. \<forall>j<length (x ! i).
        add_noise T t (posterior_mean T model x t) (fst (randn_like x g)) ! i ! j =
          posterior_mean T model x t ! i ! j
          + sqrt (posterior_variance T ! nat (t ! i)) * (fst (randn_like x g) ! i ! j)"
  proof (intro allI impI)
    fix i j assume i: "i < length x" and j: "j < length (x ! i)"
    have "i < length (posterior_mean T model x t)"
      using i shape_ofD(1) [OF pm] by simp
    moreover have "j < length (posterior_mean T model x t ! i)"
      using i j shape_ofD(2) [OF pm, of i] by simp
    ultimately show "add_noise T t (posterior_mean T model x t) (fst (randn_like x g)) ! i ! j =
          posterior_mean T model x t ! i ! j
          + sqrt (posterior_variance T ! nat (t ! i)) * (fst (randn_like x g) ! i ! j)"
      by (rule add_noise_entry [OF shz])
  qed
  have 5: "length imgs = T
        \<and> (\<exists>gs. length gs = T \<and> g' = last (snd (randn b (prod_list dims) g) # gs)
             \<and> (\<forall>k<T.
                  p_sample T model ((fst (randn b (prod_list dims) g) # imgs) ! k)
                    (replicate b (int (T - 1 - k))) (int (T - 1 - k))
                    ((snd (randn b (prod_list dims) g) # gs) ! k) = Inr (imgs ! k, gs ! k)
                  \<and> imgs ! k =
                      (if T - 1 - k = 0
                       then posterior_mean T model
                              ((fst (randn b (prod_list dims) g) # imgs) ! k)
                              (replicate b (int (T - 1 - k)))
                       else add_noise T (replicate b (int (T - 1 - k)))
                              (posterior_mean T model
                                 ((fst (randn b (prod_list dims) g) # imgs) ! k)
                                 (replicate b (int (T - 1 - k))))
                              (fst (randn_like ((fst (randn b (prod_list dims) g) # imgs) ! k)
                                     ((snd (randn b (prod_list dims) g) # gs) ! k))))
                  \<and> gs ! k =
                      (if T - 1 - k = 0 then (snd (randn b (prod_list dims) g) # gs) ! k
                       else snd (randn_like ((fst (randn b (prod_list dims) g) # imgs) ! k)
                                  ((snd (randn b (prod_list dims) g) # gs) ! k))))
             \<and> (0 < T \<longrightarrow>
                  last imgs =
                    posterior_mean T model
                      ((fst (randn b (prod_list dims) g) # imgs) ! (T - 1)) (replicate b 0)))"
    if run: "p_sample_loop T model (b # dims) g = Inr (imgs, g')" for imgs g'
  proof -
    obtain gs where lg: "length gs = T"
      and g': "g' = last (snd (randn b (prod_list dims) g) # gs)"
      and steps: "\<forall>k<T. p_sample T model ((fst (randn b (prod_list dims) g) # imgs) ! k)
                 (replicate b (int (T - 1 - k))) (int (T - 1 - k))
                 ((snd (randn b (prod_list dims) g) # gs) ! k) = Inr (imgs ! k, gs ! k)"
      using p_sample_loop_Inr [OF run] by blast
    have li: "length imgs = T" using p_sample_loop_Inr [OF run] by blast
    note f = loop_step_formula [OF sp run lg steps]
    have fin: "last imgs =
        posterior_mean T model
          ((fst (randn b (prod_list dims) g) # imgs) ! (T - 1)) (replicate b 0)" if T: "0 < T"
    proof -
      have "imgs \<noteq> []" using li T by auto
      then have "last imgs = imgs ! (T - 1)" using li by (simp add: last_conv_nth)
      then show ?thesis using f [of "T - 1"] T by simp
    qed
    show ?thesis
      using li lg g' steps f fin by (intro conjI exI [of _ gs]) auto
  qed
  have 6: "parameters model \<noteq> [] \<longrightarrow>
        (\<exists>imgs g'. p_sample_loop T model (b # dims) g = Inr (imgs, g'))"
    using p_sample_loop_run [OF sp, of T b dims g] by blast
  show ?thesis using 1 2 3 4 5 6 by (intro conjI allI impI) blast+
qed

theorem reverse_sampling_step_witness:
  "shape_preserving (echo_model [[[0]]]) \<and> valid_t 2 [1]
   \<and> length [1 :: int] = length [[1, 2 :: real]]
   \<and> map_sum id fst (p_sample 2 (echo_model [[[0]]]) [[1, 2]] [1] 1 count_rng) =
       Inr [[sqrt (1 / alphas 2 ! 1) * (1 - betas 2 ! 1 * 1 / sqrt (1 - alphas_cumprod 2 ! 1))
               + sqrt (posterior_variance 2 ! 1) * 0,
             sqrt (1 / alphas 2 ! 1) * (2 - betas 2 ! 1 * 2 / sqrt (1 - alphas_cumprod 2 ! 1))
               + sqrt (posterior_variance 2 ! 1) * 1]]
   \<and> p_sample 2 (echo_model [[[0]]]) [[1, 2]] [0] 0 count_rng =
       Inr ([[sqrt (1 / alphas 2 ! 0) * (1 - betas 2 ! 0 * 1 / sqrt (1 - alphas_cumprod 2 ! 0)),
              sqrt (1 / alphas 2 ! 0) * (2 - betas 2 ! 0 * 2 / sqrt (1 - alphas_cumprod 2 ! 0))]],
            count_rng)
   \<and> (\<exists>imgs g'. p_sample_loop 2 (echo_model [[[0]]]) [1, 2] count_rng = Inr (imgs, g')
        \<and> length imgs = 2
        \<and> imgs ! 0 =
            add_noise 2 [1] (posterior_mean 2 (echo_model [[[0]]]) [[0, 1]] [1]) [[2, 3]]
        \<and> imgs ! 1 = posterior_mean 2 (echo_model [[[0]]]) (imgs ! 0) [0])"
proof -
  have v1: "valid_t 2 [1]" and v0: "valid_t 2 [0]" by (simp_all add: valid_t_def)
  have l: "length [1 :: int] = length [[1, 2 :: real]]"
    and l0: "length [0 :: int] = length [[1, 2 :: real]]" by simp_all
  have np: "parameters (echo_model [[[0]]]) \<noteq> []" by (simp add: echo_model_def)
  note A = reverse_sampling_step [OF shape_preserving_echo_model v1 l,
      of "[[[0]]]" count_rng 1 1 "[2]"]
  note B = reverse_sampling_step [OF shape_preserving_echo_model v0 l0,
      of "[[[0]]]" count_rng 1 1 "[2]"]
  have A2: "p_sample 2 (echo_model [[[0]]]) [[1, 2]] [1] 1 count_rng =
      Inr (add_noise 2 [1] (posterior_mean 2 (echo_model [[[0]]]) [[1, 2]] [1])
             (fst (randn_like [[1, 2]] count_rng)), snd (randn_like [[1, 2]] count_rng))"
    using A [THEN conjunct2, THEN conjunct1] by simp
  have B1: "p_sample 2 (echo_model [[[0]]]) [[1, 2]] [0] 0 count_rng =
      Inr (posterior_mean 2 (echo_model [[[0]]]) [[1, 2]] [0], count_rng)"
    using B [THEN conjunct1] .
  have a: "map_sum id fst (p_sample 2 (echo_model [[[0]]]) [[1, 2]] [1] 1 count_rng) =
       Inr [[sqrt (1 / alphas 2 ! 1) * (1 - betas 2 ! 1 * 1 / sqrt (1 - alphas_cumprod 2 ! 1))
               + sqrt (posterior_variance 2 ! 1) * 0,
             sqrt (1 / alphas 2 ! 1) * (2 - betas 2 ! 1 * 2 / sqrt (1 - alphas_cumprod 2 ! 1))
               + sqrt (posterior_variance 2 ! 1) * 1]]"
    unfolding A2 by (simp add: add_noise_def posterior_mean_def echo_model_def draw_def
        count_rng_def upt_rec numeral_2_eq_2)
  have b: "p_sample 2 (echo_model [[[0]]]) [[1, 2]] [0] 0 count_rng =
       Inr ([[sqrt (1 / alphas 2 ! 0) * (1 - betas 2 ! 0 * 1 / sqrt (1 - alphas_cumprod 2 ! 0)),
              sqrt (1 / alphas 2 ! 0) * (2 - betas 2 ! 0 * 2 / sqrt (1 - alphas_cumprod 2 ! 0))]],
            count_rng)"
    unfolding B1 by (simp add: posterior_mean_def echo_model_def)
  obtain imgs g' where
    run: "p_sample_loop 2 (echo_model [[[0]]]) [1, 2] count_rng = Inr (imgs, g')"
    using A [THEN conjunct2, THEN conjunct2, THEN conjunct2, THEN conjunct2, THEN conjunct2,
        rule_format, OF np]
    by blast
  have r: "randn 1 (prod_list [2]) count_rng = ([[0, 1]], (\<lambda>k. count_rng (k + 2)))"
    by (simp add: randn_def draw_def count_rng_def upt_rec numeral_2_eq_2)
  note A5 = A [THEN conjunct2, THEN conjunct2, THEN conjunct2, THEN conjunct2, THEN conjunct1,
      rule_format, OF run]
  have "\<exists>gs. \<forall>k<2. imgs ! k =
            (if 2 - 1 - k = 0
             then posterior_mean 2 (echo_model [[[0]]])
                    ((fst (randn 1 (prod_list [2]) count_rng) # imgs) ! k)
                    (replicate 1 (int (2 - 1 - k)))
             else add_noise 2 (replicate 1 (int (2 - 1 - k)))
                    (posterior_mean 2 (echo_model [[[0]]])
                       ((fst (randn 1 (prod_list [2]) count_rng) # imgs) ! k)
                       (replicate 1 (int (2 - 1 - k))))
                    (fst (randn_like ((fst (randn 1 (prod_list [2]) count_rng) # imgs) ! k)
                           ((snd (randn 1 (prod_list [2]) count_rng) # gs) ! k))))"
    using A5 [THEN conjunct2] by (elim exE conjE, intro exI) blast
  then obtain gs where
    f: "\<And>k. k < 2 \<Longrightarrow> imgs ! k =
            (if 2 - 1 - k = 0
             then posterior_mean 2 (echo_model [[[0]]])
                    ((fst (randn 1 (prod_list [2]) count_rng) # imgs) ! k)
                    (replicate 1 (int (2 - 1 - k)))
             else add_noise 2 (replicate 1 (int (2 - 1 - k)))
                    (posterior_mean 2 (echo_model [[[0]]])
                       ((fst (randn 1 (prod_list [2]) count_rng) # imgs) ! k)
                       (replicate 1 (int (2 - 1 - k))))
                    (fst (randn_like ((fst (randn 1 (prod_list [2]) count_rng) # imgs) ! k)
                           ((snd (randn 1 (prod_list [2]) count_rng) # gs) ! k))))"
    by blast
  have li: "length imgs = 2"
    using A5 by (rule conjunct1)
  have c0: "imgs ! 0 =
      add_noise 2 [1] (posterior_mean 2 (echo_model [[[0]]]) [[0, 1]] [1]) [[2, 3]]"
    using f [of 0, unfolded r] by (simp add: draw_def count_rng_def upt_rec numeral_2_eq_2)
  have c1: "imgs ! 1 = posterior_mean 2 (echo_model [[[0]]]) (imgs ! 0) [0]"
    using f [of 1] by simp
  have c: "length imgs = 2
      \<and> imgs ! 0 =
          add_noise 2 [1] (posterior_mean 2 (echo_model [[[0]]]) [[0, 1]] [1]) [[2, 3]]
      \<and> imgs ! 1 = posterior_mean 2 (echo_model [[[0]]]) (imgs ! 0) [0]"
    using li c0 c1 by simp
  have d: "\<exists>imgs g'. p_sample_loop 2 (echo_model [[[0]]]) [1, 2] count_rng = Inr (imgs, g')
        \<and> length imgs = 2
        \<and> imgs ! 0 =
            add_noise 2 [1] (posterior_mean 2 (echo_model [[[0]]]) [[0, 1]] [1]) [[2, 3]]
        \<and> imgs ! 1 = posterior_mean 2 (echo_model [[[0]]]) (imgs ! 0) [0]"
    using run c by blast
  show ?thesis
    using a b d shape_preserving_echo_model [of "[[[0]]]"] v1 by simp
qed

section \<open>The loss\<close>
























section \<open>The shape of the network's output\<close>

lemma Conv2d_Inr:
  assumes "Conv2d i o' k p x = Inr y"
  shows "chans x = i"
    and "y = x\<lparr>chans := o', height := height x + 2 * p - (k - 1),
              width := width x + 2 * p - (k - 1)\<rparr>"
  using assms by (auto simp: Conv2d_def split: if_splits)

lemma Conv2d_1_Inr:
  assumes "Conv2d i o' 1 0 x = Inr y"
  shows "chans x = i" and "y = x\<lparr>chans := o'\<rparr>"
  using Conv2d_Inr [OF assms] by simp_all

lemma Conv2d_3_Inr:
  assumes "Conv2d i o' 3 1 x = Inr y"
  shows "chans x = i" and "y = x\<lparr>chans := o'\<rparr>"
  using Conv2d_Inr [OF assms] by simp_all

lemma GroupNorm_Inr:
  assumes "GroupNorm g c x = Inr y"
  shows "chans x = c" and "y = x"
  using assms by (auto simp: GroupNorm_def split: if_splits)

lemma broadcast_dim_Inr:
  assumes "broadcast_dim m n = Inr k"
  shows "k = (if m = 1 then n else m)" and "m = n \<or> m = 1 \<or> n = 1"
  using assms by (auto simp: broadcast_dim_def split: if_splits)

lemma broadcast_dim_same: "broadcast_dim m m = Inr m"
  by (simp add: broadcast_dim_def)

lemma broadcast_dim_1: "broadcast_dim m 1 = Inr m"
  by (simp add: broadcast_dim_def)

lemma broadcast_shapes_Inr:
  assumes "broadcast_shapes x y = Inr z"
  shows "broadcast_dim (batch x) (batch y) = Inr (batch z)"
    and "broadcast_dim (chans x) (chans y) = Inr (chans z)"
    and "broadcast_dim (height x) (height y) = Inr (height z)"
    and "broadcast_dim (width x) (width y) = Inr (width z)"
  using assms unfolding broadcast_shapes_def
  by (auto elim!: bind_r_InrE)

lemma broadcast_shapes_same: "broadcast_shapes x x = Inr x"
  by (simp add: broadcast_shapes_def broadcast_dim_same)

lemma Conv2d_batch: "Conv2d i o' k p x = Inr y \<Longrightarrow> batch y = batch x"
  by (auto simp: Conv2d_def split: if_splits)

lemma Block_plain_Inr:
  assumes "Block d d' g x None = Inr y"
  shows "chans x = d" and "y = x\<lparr>chans := d'\<rparr>"
proof -
  obtain x1 where c: "Conv2d d d' 3 1 x = Inr x1" and n: "GroupNorm g d' x1 = Inr y"
    using assms unfolding Block_def by (auto elim!: bind_r_InrE)
  show "chans x = d" using Conv2d_3_Inr(1) [OF c] .
  show "y = x\<lparr>chans := d'\<rparr>"
    using Conv2d_3_Inr(2) [OF c] GroupNorm_Inr(2) [OF n] by simp
qed

lemma Block_scaled_Inr:
  assumes "Block d d' g x (Some (\<lparr>batch = bt, chans = d', height = 1, width = 1\<rparr>,
                                  \<lparr>batch = bt, chans = d', height = 1, width = 1\<rparr>)) = Inr y"
  shows "chans x = d"
    and "y = x\<lparr>batch := (if batch x = 1 then bt else batch x), chans := d'\<rparr>"
    and "batch x = bt \<or> batch x = 1 \<or> bt = 1"
proof -
  obtain x1 x2 x3 where c: "Conv2d d d' 3 1 x = Inr x1" and n: "GroupNorm g d' x1 = Inr x2"
    and b1: "broadcast_shapes x2 \<lparr>batch = bt, chans = d', height = 1, width = 1\<rparr> = Inr x3"
    and b2: "broadcast_shapes x3 \<lparr>batch = bt, chans = d', height = 1, width = 1\<rparr> = Inr y"
    using assms unfolding Block_def by (auto elim!: bind_r_InrE)
  have x1: "x1 = x\<lparr>chans := d'\<rparr>" and cx: "chans x = d" using Conv2d_3_Inr [OF c] by simp_all
  have x2: "x2 = x1" using GroupNorm_Inr [OF n] by simp
  note f1 = broadcast_shapes_Inr [OF b1, unfolded x2 x1, simplified]
  have x3: "x3 = x\<lparr>batch := (if batch x = 1 then bt else batch x), chans := d'\<rparr>"
    using f1 by (intro shape4.equality) (auto dest!: broadcast_dim_Inr(1))
  note f2 = broadcast_shapes_Inr [OF b2, unfolded x3, simplified]
  have "y = x3"
    unfolding x3 using f2 by (intro shape4.equality) (auto dest!: broadcast_dim_Inr(1) split: if_splits)
  then show "y = x\<lparr>batch := (if batch x = 1 then bt else batch x), chans := d'\<rparr>"
    by (simp add: x3)
  show "chans x = d" by (rule cx)
  show "batch x = bt \<or> batch x = 1 \<or> bt = 1"
    using broadcast_dim_Inr(2) [OF f1(1)] by simp
qed

lemma ResnetBlock_Inr:
  assumes "ResnetBlock d d' (Some td) g x (Some (bt, f)) = Inr y"
  shows "chans x = d"
    and "y = x\<lparr>batch := (if batch x = 1 then bt else batch x), chans := d'\<rparr>"
    and "batch x = bt \<or> batch x = 1 \<or> bt = 1"
proof -
  define half where "half = \<lparr>batch = bt, chans = d', height = 1, width = 1\<rparr>"
  obtain e ss h1 h2 r where l: "Linear td (d' * 2) (bt, f) = Inr e"
    and ss: "ss = Some (\<lparr>batch = fst e, chans = snd e div 2, height = 1, width = 1\<rparr>,
                        \<lparr>batch = fst e, chans = snd e div 2, height = 1, width = 1\<rparr>)"
    and k1: "Block d d' g x ss = Inr h1"
    and k2: "Block d' d' g h1 None = Inr h2"
    and rc: "(if d \<noteq> d' then Conv2d d d' 1 0 x else Inr x) = Inr r"
    and bs: "broadcast_shapes r h2 = Inr y"
    using assms unfolding ResnetBlock_def
    by (auto elim!: bind_r_InrE simp: Let_def)
  have e: "e = (bt, d' * 2)" using l by (auto simp: Linear_def split: if_splits)
  have ss': "ss = Some (half, half)" by (simp add: ss e half_def)
  note B = Block_scaled_Inr [OF k1 [unfolded ss' half_def]]
  have h2: "h2 = h1" using Block_plain_Inr [OF k2] B(2) by simp
  have r: "r = x\<lparr>chans := d'\<rparr>"
  proof (cases "d = d'")
    case True
    then show ?thesis using rc B(1) by simp
  next
    case False
    then show ?thesis using rc Conv2d_1_Inr(2) [of d d' x r] by simp
  qed
  note f = broadcast_shapes_Inr [OF bs, unfolded h2 r B(2), simplified]
  show "chans x = d" by (rule B(1))
  show "batch x = bt \<or> batch x = 1 \<or> bt = 1" by (rule B(3))
  show "y = x\<lparr>batch := (if batch x = 1 then bt else batch x), chans := d'\<rparr>"
    using f by (intro shape4.equality) (auto dest!: broadcast_dim_Inr(1) split: if_splits)
qed

lemma ResnetBlock_stable:
  assumes "ResnetBlock d d' (Some td) g x (Some (bt, f)) = Inr y"
  shows "stable bt (batch y)" and "stable bt (batch x) \<Longrightarrow> batch y = batch x"
    and "height y = height x" and "width y = width x" and "chans y = d'"
  using ResnetBlock_Inr [OF assms] by (auto simp: stable_def)

lemma attn_Inr:
  assumes "Residual (PreNorm d (Attention d hs dh)) x = Inr y"
  shows "y = x"
proof -
  obtain x1 q o' where n: "GroupNorm 1 d x = Inr x1"
    and c1: "Conv2d d (dh * hs * 3) 1 0 x1 = Inr q"
    and c2: "Conv2d (dh * hs) d 1 0 (q\<lparr>chans := hs * dh\<rparr>) = Inr o'"
    and b: "broadcast_shapes o' x = Inr y"
    using assms unfolding Residual_def PreNorm_def Attention_def
    by (auto elim!: bind_r_InrE simp: Let_def)
  have x1: "x1 = x" and cx: "chans x = d" using GroupNorm_Inr [OF n] by simp_all
  have q: "q = x\<lparr>chans := dh * hs * 3\<rparr>" using Conv2d_1_Inr(2) [OF c1] x1 by simp
  have "o' = x\<lparr>chans := d\<rparr>" using Conv2d_1_Inr(2) [OF c2] q by simp
  then have "o' = x" using cx by simp
  then show ?thesis using b by (simp add: broadcast_shapes_same)
qed

lemma Downsample_batch: "Downsample d d' x = Inr y \<Longrightarrow> batch y = batch x"
  unfolding Downsample_def Rearrange_patches_def
  by (auto elim!: bind_r_InrE dest!: Conv2d_batch split: if_splits)

lemma Upsample_batch: "Upsample d d' x = Inr y \<Longrightarrow> batch y = batch x"
  unfolding Upsample_def nn_Upsample_def
  by (auto elim!: bind_r_InrE dest!: Conv2d_batch)

lemma cat_channels_Inr:
  assumes "cat_channels x s = Inr y"
  shows "y = x\<lparr>chans := chans x + chans s\<rparr>"
    and "batch x = batch s" and "height x = height s" and "width x = width s"
  using assms by (auto simp: cat_channels_def split: if_splits)

lemma pop_Inr: "pop h = Inr v \<Longrightarrow> \<exists>s h'. v = (s, h')"
  by (cases v) simp

lemma ups_loop_batch:
  assumes stages: "\<And>b1 b2 a u. (b1, b2, a, u) \<in> set sts \<Longrightarrow>
        (\<forall>x y. b1 x (Some (bt, f)) = Inr y \<longrightarrow> stable bt (batch x) \<longrightarrow> batch y = batch x)
      \<and> (\<forall>x y. b2 x (Some (bt, f)) = Inr y \<longrightarrow> stable bt (batch x) \<longrightarrow> batch y = batch x)
      \<and> (\<forall>x y. a x = Inr y \<longrightarrow> batch y = batch x)
      \<and> (\<forall>x y. u x = Inr y \<longrightarrow> batch y = batch x)"
    and "stable bt (batch x)"
    and "ups_loop sts x (bt, f) h = Inr (y, h')"
  shows "batch y = batch x"
  using assms
proof (induction sts arbitrary: x h)
  case Nil
  then show ?case by simp
next
  case (Cons st rest)
  obtain b1 b2 a u where st: "st = (b1, b2, a, u)" by (cases st) auto
  have P: "(\<forall>x y. b1 x (Some (bt, f)) = Inr y \<longrightarrow> stable bt (batch x) \<longrightarrow> batch y = batch x)
      \<and> (\<forall>x y. b2 x (Some (bt, f)) = Inr y \<longrightarrow> stable bt (batch x) \<longrightarrow> batch y = batch x)
      \<and> (\<forall>x y. a x = Inr y \<longrightarrow> batch y = batch x)
      \<and> (\<forall>x y. u x = Inr y \<longrightarrow> batch y = batch x)"
    using Cons.prems(1) [of b1 b2 a u] by (simp add: st)
  from Cons.prems(3) obtain s1 h1 x1 x2 s2 h2 x3 x4 x5 x6 where
    "cat_channels x s1 = Inr x1" "b1 x1 (Some (bt, f)) = Inr x2"
    "cat_channels x2 s2 = Inr x3" "b2 x3 (Some (bt, f)) = Inr x4"
    "a x4 = Inr x5" "u x5 = Inr x6" "ups_loop rest x6 (bt, f) h2 = Inr (y, h')"
    unfolding st ups_loop.simps
    by (auto elim!: bind_r_InrE)
  note s = this
  have 1: "batch x1 = batch x" using cat_channels_Inr(1) [OF s(1)] by simp
  have 2: "batch x2 = batch x" using P s(2) Cons.prems(2) 1 by metis
  have 3: "batch x3 = batch x" using cat_channels_Inr(1) [OF s(3)] 2 by simp
  have 4: "batch x4 = batch x" using P s(4) Cons.prems(2) 3 by metis
  have 5: "batch x5 = batch x" using P s(5) 4 by metis
  have 6: "batch x6 = batch x" using P s(6) 5 by metis
  have "batch y = batch x6"
  proof (rule Cons.IH [OF _ _ s(7)])
    show "stable bt (batch x6)" using Cons.prems(2) 6 by simp
  next
    fix b1 b2 a u assume "(b1, b2, a, u) \<in> set rest"
    then show "(\<forall>x y. b1 x (Some (bt, f)) = Inr y \<longrightarrow> stable bt (batch x) \<longrightarrow> batch y = batch x)
      \<and> (\<forall>x y. b2 x (Some (bt, f)) = Inr y \<longrightarrow> stable bt (batch x) \<longrightarrow> batch y = batch x)
      \<and> (\<forall>x y. a x = Inr y \<longrightarrow> batch y = batch x)
      \<and> (\<forall>x y. u x = Inr y \<longrightarrow> batch y = batch x)"
      using Cons.prems(1) [of b1 b2 a u] by simp
  qed
  then show ?case using 6 by simp
qed

lemma ups_Unet_stage:
  assumes "(b1, b2, a, u) \<in> set (ups (Unet cfg))"
  shows "(\<forall>x y. b1 x (Some (bt, f)) = Inr y \<longrightarrow> stable bt (batch x) \<longrightarrow> batch y = batch x)
      \<and> (\<forall>x y. b2 x (Some (bt, f)) = Inr y \<longrightarrow> stable bt (batch x) \<longrightarrow> batch y = batch x)
      \<and> (\<forall>x y. a x = Inr y \<longrightarrow> batch y = batch x)
      \<and> (\<forall>x y. u x = Inr y \<longrightarrow> batch y = batch x)"
proof -
  obtain d_in d_out td g where
    b1: "b1 = ResnetBlock (d_out + d_in) d_out (Some td) g"
    and b2: "b2 = ResnetBlock (d_out + d_in) d_out (Some td) g"
    and a: "a = Residual (PreNorm d_out (Attention d_out 4 32))"
    and u: "u = Upsample d_out (Some d_in) \<or> u = Conv2d d_out d_in 3 1"
    using assms by (auto simp: Unet_def Let_def split: if_splits)
  have 1: "batch y = batch x"
    if "ResnetBlock (d_out + d_in) d_out (Some td) g x (Some (bt, f)) = Inr y"
      and "stable bt (batch x)" for x y
    using ResnetBlock_stable(2) [OF that] .
  have 2: "batch y = batch x" if "a x = Inr y" for x y
    using attn_Inr [OF that [unfolded a]] by simp
  have 3: "batch y = batch x" if "u x = Inr y" for x y
    using u that Upsample_batch Conv2d_batch by metis
  show ?thesis
    unfolding b1 b2 using 1 2 3 by blast
qed

text \<open>
  Claim C7, as amended.  For every configuration (list of multipliers, with or without an
  explicit \<open>out_dim\<close>), whenever the forward pass accepts an image batch, a timestep vector
  and an optional conditioning image, the predicted noise has the batch size, the height
  and the width of the image, and \<open>default(out_dim, channels)\<close> channels.  It has the shape of
  the image when the network is built without an explicit \<open>out_dim\<close> and, under
  self-conditioning, the conditioning image has as many channels as the image.
\<close>

theorem Unet_forward_shape:
  "Unet_forward (Unet cfg) x time x_self_cond = Inr y \<longrightarrow>
     batch y = batch x \<and> height y = height x \<and> width y = width x
     \<and> chans y = default' (cfg_out_dim cfg) (cfg_channels cfg)
     \<and> (if cfg_self_condition cfg
         then chans (default' x_self_cond x) + chans x = cfg_channels cfg * 2
         else chans x = cfg_channels cfg)
     \<and> (cfg_out_dim cfg = None
          \<and> (cfg_self_condition cfg \<longrightarrow>
               (case x_self_cond of None \<Rightarrow> True | Some c \<Rightarrow> chans c = chans x))
        \<longrightarrow> y = x)"
proof
  assume fw: "Unet_forward (Unet cfg) x time x_self_cond = Inr y"
  define channels where "channels = cfg_channels cfg"
  define dm where "dm = cfg_dim cfg"
  define td where "td = dm * 4"
  define g where "g = cfg_resnet_block_groups cfg"
  define init_dim where "init_dim = default' (cfg_init_dim cfg) dm"
  define out_dim where "out_dim = default' (cfg_out_dim cfg) channels"
  define mid_dim where "mid_dim = last (init_dim # map (\<lambda>m. dm * m) (cfg_dim_mults cfg))"
  have f_sc: "self_condition (Unet cfg) = cfg_self_condition cfg"
    and f_ic: "init_conv (Unet cfg) =
        Conv2d (channels * (if cfg_self_condition cfg then 2 else 1)) init_dim 1 0"
    and f_tm: "time_mlp (Unet cfg) = (\<lambda>time.
            bind_r (SinusoidalPositionEmbeddings dm time) (\<lambda>e.
            bind_r (Linear dm td e) (Linear td td)))"
    and f_m1: "mid_block1 (Unet cfg) = ResnetBlock mid_dim mid_dim (Some td) g"
    and f_ma: "mid_attn (Unet cfg) = Residual (PreNorm mid_dim (Attention mid_dim 4 32))"
    and f_m2: "mid_block2 (Unet cfg) = ResnetBlock mid_dim mid_dim (Some td) g"
    and f_fr: "final_res_block (Unet cfg) = ResnetBlock (dm * 2) dm (Some td) g"
    and f_fc: "final_conv (Unet cfg) = Conv2d dm out_dim 1 0"
    by (simp_all add: Unet_def Let_def channels_def dm_def td_def g_def init_dim_def
        mid_dim_def out_dim_def)
  from fw obtain x0 x1 t x2 h2 x3 x4 x5 x6 h6 x7 x8 where
    s0: "(if self_condition (Unet cfg) then cat_channels (default' x_self_cond x) x else Inr x)
          = Inr x0"
    and s1: "init_conv (Unet cfg) x0 = Inr x1"
    and st: "time_mlp (Unet cfg) time = Inr t"
    and s2: "downs_loop (downs (Unet cfg)) x1 t [] = Inr (x2, h2)"
    and s3: "mid_block1 (Unet cfg) x2 (Some t) = Inr x3"
    and s4: "mid_attn (Unet cfg) x3 = Inr x4"
    and s5: "mid_block2 (Unet cfg) x4 (Some t) = Inr x5"
    and s6: "ups_loop (ups (Unet cfg)) x5 t h2 = Inr (x6, h6)"
    and s7: "cat_channels x6 x1 = Inr x7"
    and s8: "final_res_block (Unet cfg) x7 (Some t) = Inr x8"
    and s9: "final_conv (Unet cfg) x8 = Inr y"
    unfolding Unet_forward_def Let_def
    by (auto elim!: bind_r_InrE)
  obtain bt f where t: "t = (bt, f)" by (cases t) auto
  \<comment> \<open>the input of the first convolution has the batch and spatial size of the image\<close>
  have x0: "batch x0 = batch x \<and> height x0 = height x \<and> width x0 = width x
      \<and> chans x0 = (if cfg_self_condition cfg then chans (default' x_self_cond x) + chans x
                     else chans x)"
  proof (cases "cfg_self_condition cfg")
    case False
    then show ?thesis using s0 by (simp add: f_sc)
  next
    case True
    then have c: "cat_channels (default' x_self_cond x) x = Inr x0" using s0 by (simp add: f_sc)
    show ?thesis using cat_channels_Inr [OF c] True by simp
  qed
  have x1: "x1 = x0\<lparr>chans := init_dim\<rparr>"
    and cx0: "chans x0 = channels * (if cfg_self_condition cfg then 2 else 1)"
    using Conv2d_1_Inr [OF s1 [unfolded f_ic]] by simp_all
  \<comment> \<open>from the middle block on, the batch size is stable under the time embedding's\<close>
  note m1 = ResnetBlock_stable [OF s3 [unfolded f_m1 t]]
  have x4: "x4 = x3" using attn_Inr [OF s4 [unfolded f_ma]] .
  note m2 = ResnetBlock_stable [OF s5 [unfolded f_m2 t]]
  have b5: "stable bt (batch x5)" using m2(1) .
  have b6: "batch x6 = batch x5"
    using ups_Unet_stage b5 s6 [unfolded t] by (rule ups_loop_batch)
  note c7 = cat_channels_Inr [OF s7]
  have b7: "stable bt (batch x7)" using c7(1) b6 b5 by simp
  note fr = ResnetBlock_stable [OF s8 [unfolded f_fr t]]
  have y: "y = x8\<lparr>chans := out_dim\<rparr>" using Conv2d_1_Inr(2) [OF s9 [unfolded f_fc]] .
  have yb: "batch y = batch x" using y fr(2) [OF b7] c7 x1 x0 by simp
  have yh: "height y = height x" using y fr(3) c7 x1 x0 by simp
  have yw: "width y = width x" using y fr(4) c7 x1 x0 by simp
  have yc: "chans y = default' (cfg_out_dim cfg) (cfg_channels cfg)"
    using y by (simp add: out_dim_def channels_def)
  have xc: "if cfg_self_condition cfg
         then chans (default' x_self_cond x) + chans x = cfg_channels cfg * 2
         else chans x = cfg_channels cfg"
    using x0 cx0 by (simp add: channels_def split: if_splits)
  have eq: "y = x"
    if od: "cfg_out_dim cfg = None"
      and sc: "cfg_self_condition cfg \<longrightarrow>
               (case x_self_cond of None \<Rightarrow> True | Some c \<Rightarrow> chans c = chans x)"
  proof (rule shape4.equality)
    have "chans (default' x_self_cond x) = chans x" if "cfg_self_condition cfg"
      using sc that by (cases x_self_cond) (simp_all add: default'_def)
    then have "chans x = cfg_channels cfg" using xc by (simp split: if_splits)
    then show "chans y = chans x" using yc od by (simp add: default'_def)
  qed (simp_all add: yb yh yw)
  show "batch y = batch x \<and> height y = height x \<and> width y = width x
     \<and> chans y = default' (cfg_out_dim cfg) (cfg_channels cfg)
     \<and> (if cfg_self_condition cfg
         then chans (default' x_self_cond x) + chans x = cfg_channels cfg * 2
         else chans x = cfg_channels cfg)
     \<and> (cfg_out_dim cfg = None
          \<and> (cfg_self_condition cfg \<longrightarrow>
               (case x_self_cond of None \<Rightarrow> True | Some c \<Rightarrow> chans c = chans x))
        \<longrightarrow> y = x)"
    using yb yh yw yc xc eq by blast
qed

text \<open>
  The notebook's network built with \<open>out_dim = 3\<close> returns three channels for an image of
  one; built with two channels and self-conditioning, it accepts an image of one channel
  with a conditioning image of three and returns two channels.
\<close>

theorem Unet_forward_shape_counterexample:
  "Unet_forward (Unet (notebook_cfg\<lparr>cfg_out_dim := Some 3\<rparr>))
       \<lparr>batch = 64, chans = 1, height = 28, width = 28\<rparr> 64 None =
     Inr \<lparr>batch = 64, chans = 3, height = 28, width = 28\<rparr>
   \<and> Unet_forward (Unet (notebook_cfg\<lparr>cfg_channels := 2, cfg_self_condition := True\<rparr>))
       \<lparr>batch = 64, chans = 1, height = 28, width = 28\<rparr> 64
       (Some \<lparr>batch = 64, chans = 3, height = 28, width = 28\<rparr>) =
     Inr \<lparr>batch = 64, chans = 2, height = 28, width = 28\<rparr>"
  by (simp add: Unet_forward_def Unet_def notebook_cfg_def Let_def default'_def Conv2d_def
        SinusoidalPositionEmbeddings_def Linear_def ResnetBlock_def Block_def GroupNorm_def
        broadcast_shapes_def broadcast_dim_def Residual_def PreNorm_def Attention_def
        Downsample_def Rearrange_patches_def Upsample_def nn_Upsample_def cat_channels_def
        pop_def enumerate_eq_zip upt_rec)

theorem Unet_forward_shape_witness:
  "cfg_out_dim notebook_cfg = None \<and> \<not> cfg_self_condition notebook_cfg
   \<and> Unet_forward (Unet notebook_cfg) \<lparr>batch = 64, chans = 1, height = 28, width = 28\<rparr> 64 None =
       Inr \<lparr>batch = 64, chans = 1, height = 28, width = 28\<rparr>"
proof -
  have od: "cfg_out_dim notebook_cfg = None" and sc: "\<not> cfg_self_condition notebook_cfg"
    by (simp_all add: notebook_cfg_def)
  have "\<exists>y. Unet_forward (Unet notebook_cfg) \<lparr>batch = 64, chans = 1, height = 28, width = 28\<rparr> 64 None
      = Inr y"
    by (simp add: Unet_forward_def Unet_def notebook_cfg_def Let_def default'_def Conv2d_def
        SinusoidalPositionEmbeddings_def Linear_def ResnetBlock_def Block_def GroupNorm_def
        broadcast_shapes_def broadcast_dim_def Residual_def PreNorm_def Attention_def
        Downsample_def Rearrange_patches_def Upsample_def nn_Upsample_def cat_channels_def
        pop_def enumerate_eq_zip upt_rec)
  then obtain y where
    fw: "Unet_forward (Unet notebook_cfg) \<lparr>batch = 64, chans = 1, height = 28, width = 28\<rparr> 64 None
      = Inr y" ..
  have "y = \<lparr>batch = 64, chans = 1, height = 28, width = 28\<rparr>"
    using Unet_forward_shape [of notebook_cfg _ 64 None y, THEN mp, OF fw] od sc by simp
  then show ?thesis using fw od sc by simp
qed

end
